theory Spec2Isabelle
  imports Complex_Main "HOL-Library.Multiset" "HOL-Library.Word" "HOL-Library.Sublist"
begin

section \<open>PaperFuse: the page collection of a browser PDF merger\<close>

text \<open>
  The development follows the later of the repository's two variants of the application
  script (the one with page rotation, the export preview and the filename rules). The
  earlier variant, \<^verbatim>\<open>app.js\<close>, has none of these three; of the functions the two
  variants share, only the export functions differ, and those of the earlier variant have
  a subsection of their own.

  JavaScript values are modelled as follows. A string is a HOL \<^typ>\<open>string\<close>, one
  \<^typ>\<open>char\<close> per UTF-16 code unit (so the model covers code units up to 0xFF). A
  \<^verbatim>\<open>Uint8Array\<close> is never written after its creation, so it is its identity (an address)
  together with its bytes, and \<^verbatim>\<open>===\<close> on two arrays compares the addresses. A
  \<^verbatim>\<open>Set\<close> of strings is the list of its members in insertion order. A thrown
  \<^verbatim>\<open>Error\<close> is a value of type \<open>error\<close>; a call that may throw returns
  \<open>error + 'a\<close>. An \<^verbatim>\<open>async\<close> function is run to completion; where the points at
  which it suspends matter, its synchronous prefix and its \<^verbatim>\<open>finally\<close> block are
  definitions of their own.
\<close>

subsection \<open>Data\<close>

type_synonym byte = "8 word"

datatype u8array = U8 (addr: nat) (bytes: "byte list")

datatype error = Error (message: string)

text \<open>The page object built by \<^verbatim>\<open>processFiles\<close> (\<^verbatim>\<open>id\<close> is \<open>pageId\<close> here).\<close>

record page =
  pageId :: string
  sourceFile :: string
  pageIndex :: nat
  originalPageNumber :: nat
  pdfBytes :: u8array
  thumbnail :: string
  rotation :: nat

text \<open>
  The \<^verbatim>\<open>state\<close> object, and beside it what the functions below read and write outside
  it: the files handed to the download sink, the toasts shown, the loading overlay, the
  cards of the page grid (by page id), the export dialog, and the counters that make
  fresh array identities and fresh page ids.
\<close>

record app =
  pages :: "page list"
  selectedIds :: "string list"
  draggedId :: "string option"
  isProcessing :: bool
  currentFilename :: string
  filenameTemplate :: string
  downloads :: "(byte list \<times> string) list"
  toasts :: "(string \<times> string) list"
  loadingVisible :: bool
  grid :: "string list"
  modalVisible :: bool
  filenameInput :: string
  filenameError :: string
  confirmExportDisabled :: bool
  statFileSize :: "string option"
  nextAddr :: nat
  idCalls :: nat

definition initial :: app where
  "initial = \<lparr> pages = [], selectedIds = [], draggedId = None, isProcessing = False,
     currentFilename = ''merged'', filenameTemplate = ''custom'', downloads = [], toasts = [],
     loadingVisible = False, grid = [], modalVisible = False, filenameInput = [],
     filenameError = [], confirmExportDisabled = False, statFileSize = None,
     nextAddr = 0, idCalls = 0 \<rparr>"

subsection \<open>JavaScript library functions\<close>

text \<open>\<^verbatim>\<open>Set.prototype.has\<close>, \<^verbatim>\<open>add\<close> and \<^verbatim>\<open>delete\<close>.\<close>

definition setHas :: "string list \<Rightarrow> string \<Rightarrow> bool" where
  "setHas s x = (x \<in> set s)"

definition setAdd :: "string list \<Rightarrow> string \<Rightarrow> string list" where
  "setAdd s x = (if x \<in> set s then s else s @ [x])"

definition setDelete :: "string list \<Rightarrow> string \<Rightarrow> string list" where
  "setDelete s x = filter (\<lambda>y. y \<noteq> x) s"

text \<open>\<^verbatim>\<open>Array.prototype.findIndex\<close>: the first index whose element passes, \<open>None\<close> for -1.\<close>

fun findIndex :: "('a \<Rightarrow> bool) \<Rightarrow> 'a list \<Rightarrow> nat option" where
  "findIndex P [] = None"
| "findIndex P (x # xs) = (if P x then Some 0 else map_option Suc (findIndex P xs))"

text \<open>
  \<^verbatim>\<open>Array.prototype.splice(start, deleteCount, ...items)\<close> for a start that is not
  negative: the removed elements and the array afterwards. A start or a count beyond the
  end is clamped, as \<open>take\<close> and \<open>drop\<close> clamp.
\<close>

definition splice_js :: "nat \<Rightarrow> nat \<Rightarrow> 'a list \<Rightarrow> 'a list \<Rightarrow> 'a list \<times> 'a list" where
  "splice_js start deleteCount items xs =
     (take deleteCount (drop start xs), take start xs @ items @ drop (start + deleteCount) xs)"

subsection \<open>Rendering the grid\<close>

text \<open>\<^verbatim>\<open>renderPages\<close> rebuilds the grid: one card per page, in order.\<close>

definition renderPages :: "app \<Rightarrow> app" where
  "renderPages w = w\<lparr>grid := map pageId (pages w)\<rparr>"

subsection \<open>Drag and drop reorder\<close>

definition handlePageDragStart :: "string \<Rightarrow> app \<Rightarrow> app" where
  "handlePageDragStart i w = w\<lparr>draggedId := Some i\<rparr>"

definition handlePageDragEnd :: "app \<Rightarrow> app" where
  "handlePageDragEnd w = w\<lparr>draggedId := None\<rparr>"

text \<open>
  \<^verbatim>\<open>handlePageDrop(e, targetId)\<close>. The destructuring \<^verbatim>\<open>[draggedPage] = splice(...)\<close>
  takes the first removed element; the array it destructures is never empty, since
  \<open>draggedIndex\<close> is an index of the array (lemma \<open>splice_findIndex\<close>), and the model
  leaves the state alone in that case.
\<close>

definition handlePageDrop :: "string \<Rightarrow> app \<Rightarrow> app" where
  "handlePageDrop targetId w =
     (if draggedId w = Some targetId then w
      else
        (case (findIndex (\<lambda>p. Some (pageId p) = draggedId w) (pages w),
               findIndex (\<lambda>p. pageId p = targetId) (pages w)) of
           (Some draggedIndex, Some targetIndex) \<Rightarrow>
             (case splice_js draggedIndex 1 [] (pages w) of
                (draggedPage # _, ps) \<Rightarrow>
                  renderPages (w\<lparr>pages := snd (splice_js targetIndex 0 [draggedPage] ps)\<rparr>)
              | ([], _) \<Rightarrow> w)
         | _ \<Rightarrow> w))"

subsection \<open>Notifications, overlay, download sink\<close>

text \<open>
  \<^verbatim>\<open>showToast(message, type)\<close>, \<^verbatim>\<open>showLoading\<close>, \<^verbatim>\<open>hideLoading\<close> and
  \<^verbatim>\<open>downloadBlob(bytes, filename)\<close>. The text of the overlay and the width of its
  progress bar (\<^verbatim>\<open>updateLoadingProgress\<close>) and the attributes \<^verbatim>\<open>updateUI\<close> derives
  from the state are written and never read, and are left out.
\<close>

definition showToast :: "string \<Rightarrow> string \<Rightarrow> app \<Rightarrow> app" where
  "showToast msg type w = w\<lparr>toasts := toasts w @ [(msg, type)]\<rparr>"

definition showLoading :: "app \<Rightarrow> app" where
  "showLoading w = w\<lparr>loadingVisible := True\<rparr>"

definition hideLoading :: "app \<Rightarrow> app" where
  "hideLoading w = w\<lparr>loadingVisible := False\<rparr>"

definition downloadBlob :: "byte list \<Rightarrow> string \<Rightarrow> app \<Rightarrow> app" where
  "downloadBlob bs filename w = w\<lparr>downloads := downloads w @ [(bs, filename)]\<rparr>"

text \<open>A natural number in a template literal: its decimal digits.\<close>

fun showNat :: "nat \<Rightarrow> string" where
  "showNat n =
     (if n < 10 then [''0123456789'' ! n]
      else showNat (n div 10) @ [''0123456789'' ! (n mod 10)])"

declare showNat.simps [simp del]

subsection \<open>Selection, deletion, rotation\<close>

definition togglePageSelection :: "string \<Rightarrow> app \<Rightarrow> app" where
  "togglePageSelection i w =
     (if setHas (selectedIds w) i then w\<lparr>selectedIds := setDelete (selectedIds w) i\<rparr>
      else w\<lparr>selectedIds := setAdd (selectedIds w) i\<rparr>)"

definition selectAll :: "app \<Rightarrow> app" where
  "selectAll w =
     renderPages (w\<lparr>selectedIds := foldl setAdd (selectedIds w) (map pageId (pages w))\<rparr>)"

definition clearAll :: "app \<Rightarrow> app" where
  "clearAll w =
     showToast ''All pages cleared'' ''info'' (renderPages (w\<lparr>pages := [], selectedIds := []\<rparr>))"

definition deleteSelected :: "app \<Rightarrow> app" where
  "deleteSelected w =
     (if length (selectedIds w) = 0 then w
      else
        let count = length (selectedIds w);
            w1 = w\<lparr>pages := filter (\<lambda>p. \<not> setHas (selectedIds w) (pageId p)) (pages w)\<rparr>;
            w2 = w1\<lparr>selectedIds := []\<rparr>
        in showToast (''Deleted '' @ showNat count @ '' page(s)'') ''success'' (renderPages w2))"

text \<open>
  \<^verbatim>\<open>rotatePage(id)\<close> writes the rotation of the first page with that id. The toast ends
  with the degree sign, code unit 0xB0.
\<close>

definition rotatePage :: "string \<Rightarrow> app \<Rightarrow> app" where
  "rotatePage i w =
     (case findIndex (\<lambda>p. pageId p = i) (pages w) of
        None \<Rightarrow> w
      | Some k \<Rightarrow>
          let r = (rotation (pages w ! k) + 90) mod 360
          in showToast (''Rotated to '' @ showNat r @ [CHR 0xB0]) ''info''
               (w\<lparr>pages := (pages w)[k := (pages w ! k)\<lparr>rotation := r\<rparr>]\<rparr>))"

subsection \<open>The collaborators\<close>

text \<open>
  The two PDF libraries are not code of the repository. A document of the document-model
  library is the list of its pages, a page its content and its rotation entry. Decoding
  and serialisation are parameters (\<open>load\<close> stands for
  \<^verbatim>\<open>PDFLib.PDFDocument.load(bytes, {ignoreEncryption: true})\<close>, \<open>save\<close> for
  \<^verbatim>\<open>PDFDocument.save(options)\<close>), and so are the renderer (\<open>getDocument\<close> opens the bytes,
  \<open>generateThumbnail\<close> renders one page, numbered from 1) and the page ids
  (\<open>generateId\<close>, which reads the clock and a random number: the n-th call returns
  \<open>generateId env n\<close>) and the date (\<open>today\<close> stands for
  \<^verbatim>\<open>new Date().toISOString().slice(0, 10)\<close>).
\<close>

datatype pdfpage = PdfPage (content: string) (rotateEntry: nat)

type_synonym pdfdoc = "pdfpage list"

record saveOptions =
  useObjectStreams :: bool
  addDefaultPage :: bool

record env =
  load :: "byte list \<Rightarrow> error + pdfdoc"
  save :: "pdfdoc \<Rightarrow> saveOptions \<Rightarrow> error + byte list"
  getDocument :: "byte list \<Rightarrow> error + unit"
  generateThumbnail :: "byte list \<Rightarrow> nat \<Rightarrow> error + string"
  generateId :: "nat \<Rightarrow> string"
  today :: string

text \<open>
  \<^verbatim>\<open>copyPages(sourcePdf, [index])\<close> reads the source page at the index and throws on an
  index past the end; \<^verbatim>\<open>setRotation(degrees(r))\<close> throws unless \<open>r\<close> is a multiple of 90
  and then overwrites the rotation entry; \<^verbatim>\<open>addPage\<close> appends.
\<close>

definition copyPages :: "pdfdoc \<Rightarrow> nat list \<Rightarrow> error + pdfpage list" where
  "copyPages sourcePdf indices =
     (if \<forall>i\<in>set indices. i < length sourcePdf then Inr (map (\<lambda>i. sourcePdf ! i) indices)
      else Inl (Error ''Cannot read properties of undefined (reading 'node')''))"

definition setRotation :: "nat \<Rightarrow> pdfpage \<Rightarrow> error + pdfpage" where
  "setRotation r pg =
     (if r mod 90 = 0 then Inr (PdfPage (content pg) r)
      else Inl (Error (''`degreesAngle` must be a multiple of 90, but was actually '' @ showNat r)))"

definition addPage :: "pdfdoc \<Rightarrow> pdfpage \<Rightarrow> pdfdoc" where
  "addPage doc pg = doc @ [pg]"

subsection \<open>Ingestion\<close>

text \<open>
  An uploaded file: its name, its type (\<^verbatim>\<open>file.type\<close>) and what
  \<^verbatim>\<open>file.arrayBuffer()\<close> resolves to.
\<close>

record jsfile =
  name :: string
  mimeType :: string
  arrayBuffer :: "error + byte list"

text \<open>The first pass of \<^verbatim>\<open>processFiles\<close>: count the pages of every file.\<close>

fun countPages :: "env \<Rightarrow> jsfile list \<Rightarrow> nat \<Rightarrow> error + nat" where
  "countPages env [] totalPages = Inr totalPages"
| "countPages env (f # fs) totalPages =
     (case arrayBuffer f of
        Inl e \<Rightarrow> Inl e
      | Inr buf \<Rightarrow>
          (case load env buf of
             Inl e \<Rightarrow> Inl e
           | Inr pdfDoc \<Rightarrow> countPages env fs (totalPages + length pdfDoc)))"

text \<open>
  The inner loop of the second pass, over the page indices of one file: the state and
  \<open>processedPages\<close> as they stand when the loop ends or throws, and the error thrown.
\<close>

fun processPages ::
  "env \<Rightarrow> jsfile \<Rightarrow> u8array \<Rightarrow> nat list \<Rightarrow> app \<times> nat \<Rightarrow> (app \<times> nat) \<times> error option" where
  "processPages env f pdfBytes' [] s = (s, None)"
| "processPages env f pdfBytes' (i # is) (w, processedPages) =
     (case generateThumbnail env (bytes pdfBytes') (i + 1) of
        Inl e \<Rightarrow> ((w, processedPages), Some e)
      | Inr thumbnail' \<Rightarrow>
          let pageData = \<lparr> pageId = generateId env (idCalls w), sourceFile = name f,
                pageIndex = i, originalPageNumber = i + 1, pdfBytes = pdfBytes',
                thumbnail = thumbnail', rotation = 0 \<rparr>
          in processPages env f pdfBytes' is
               (w\<lparr>pages := pages w @ [pageData], idCalls := Suc (idCalls w)\<rparr>,
                Suc processedPages))"

text \<open>
  The second pass. The copy of the bytes that the pages keep is a new array; the other
  arrays made on the way are never compared with anything.
\<close>

fun processEach ::
  "env \<Rightarrow> jsfile list \<Rightarrow> app \<times> nat \<Rightarrow> (app \<times> nat) \<times> error option" where
  "processEach env [] s = (s, None)"
| "processEach env (f # fs) (w, processedPages) =
     (case arrayBuffer f of
        Inl e \<Rightarrow> ((w, processedPages), Some e)
      | Inr buf \<Rightarrow>
          let pdfBytes' = U8 (nextAddr w) buf;
              w1 = w\<lparr>nextAddr := Suc (nextAddr w)\<rparr>
          in (case load env (bytes pdfBytes') of
                Inl e \<Rightarrow> ((w1, processedPages), Some e)
              | Inr pdfDoc \<Rightarrow>
                  (case getDocument env (bytes pdfBytes') of
                     Inl e \<Rightarrow> ((w1, processedPages), Some e)
                   | Inr _ \<Rightarrow>
                       (case processPages env f pdfBytes' [0..<length pdfDoc]
                               (w1, processedPages) of
                          (s, Some e) \<Rightarrow> (s, Some e)
                        | (s, None) \<Rightarrow> processEach env fs s))))"

text \<open>
  \<^verbatim>\<open>processFiles\<close>: the guard and what precedes the \<^verbatim>\<open>try\<close> (\<open>None\<close>: the call
  returned at the guard), the \<^verbatim>\<open>try\<close> with its \<^verbatim>\<open>catch\<close>, and the \<^verbatim>\<open>finally\<close>.
\<close>

definition processFiles_begin :: "app \<Rightarrow> app option" where
  "processFiles_begin w =
     (if isProcessing w then None else Some (showLoading (w\<lparr>isProcessing := True\<rparr>)))"

definition processFiles_try :: "env \<Rightarrow> jsfile list \<Rightarrow> app \<Rightarrow> app" where
  "processFiles_try env files w =
     (case countPages env files 0 of
        Inl e \<Rightarrow> showToast (''Error processing PDF: '' @ message e) ''error'' (hideLoading w)
      | Inr totalPages \<Rightarrow>
          (case processEach env files (w, 0) of
             ((w', processedPages), Some e) \<Rightarrow>
               showToast (''Error processing PDF: '' @ message e) ''error'' (hideLoading w')
           | ((w', processedPages), None) \<Rightarrow>
               showToast (''Added '' @ showNat processedPages @ '' pages from ''
                   @ showNat (length files) @ '' file(s)'') ''success''
                 (renderPages (hideLoading w'))))"

definition finallyBlock :: "app \<Rightarrow> app" where
  "finallyBlock w = w\<lparr>isProcessing := False\<rparr>"

definition processFiles :: "env \<Rightarrow> jsfile list \<Rightarrow> app \<Rightarrow> app" where
  "processFiles env files w =
     (case processFiles_begin w of
        None \<Rightarrow> w
      | Some w1 \<Rightarrow> finallyBlock (processFiles_try env files w1))"

text \<open>The two upload handlers: a drop keeps the PDF files only.\<close>

definition handleFileDrop :: "env \<Rightarrow> jsfile list \<Rightarrow> app \<Rightarrow> app" where
  "handleFileDrop env dropped w =
     (let files = filter (\<lambda>f. mimeType f = ''application/pdf'') dropped
      in if length files = 0 then showToast ''Please drop PDF files only'' ''error'' w
         else processFiles env files w)"

definition handleFileSelect :: "env \<Rightarrow> jsfile list \<Rightarrow> app \<Rightarrow> app" where
  "handleFileSelect env files w = (if length files > 0 then processFiles env files w else w)"

subsection \<open>Split\<close>

text \<open>
  One round of the loop of \<^verbatim>\<open>splitSelected\<close>, up to the saved bytes: load the source
  of the page, make a new document, copy the page into it, set the rotation when it is
  positive, add the page, save.
\<close>

definition splitOne :: "env \<Rightarrow> page \<Rightarrow> error + byte list" where
  "splitOne env page =
     (case load env (bytes (pdfBytes page)) of
        Inl e \<Rightarrow> Inl e
      | Inr sourcePdf \<Rightarrow>
          (case copyPages sourcePdf [pageIndex page] of
             Inl e \<Rightarrow> Inl e
           | Inr copied \<Rightarrow>
               (case (if rotation page > 0 then setRotation (rotation page) (hd copied)
                      else Inr (hd copied)) of
                  Inl e \<Rightarrow> Inl e
                | Inr copiedPage \<Rightarrow>
                    save env (addPage [] copiedPage)
                      \<lparr>useObjectStreams = True, addDefaultPage = False\<rparr>)))"

text \<open>
  The loop over \<open>selectedPages\<close>, with the loop index: the state when the loop ends or
  throws, and the error thrown. Each round hands its document to the download sink
  before the next round starts.
\<close>

fun splitLoop :: "env \<Rightarrow> page list \<Rightarrow> nat \<Rightarrow> app \<Rightarrow> app \<times> error option" where
  "splitLoop env [] i w = (w, None)"
| "splitLoop env (page # rest) i w =
     (case splitOne env page of
        Inl e \<Rightarrow> (w, Some e)
      | Inr saved \<Rightarrow>
          splitLoop env rest (Suc i)
            (downloadBlob saved (''page_'' @ showNat (i + 1) @ ''.pdf'') w))"

text \<open>
  \<^verbatim>\<open>splitSelected\<close>: what precedes the \<^verbatim>\<open>try\<close> (\<open>Inl\<close>: the call returned there),
  the \<^verbatim>\<open>try\<close> with its \<^verbatim>\<open>catch\<close>, and the whole.
\<close>

definition splitSelected_begin :: "app \<Rightarrow> app + app" where
  "splitSelected_begin w =
     (if length (selectedIds w) = 0 then Inl (showToast ''Select pages to split'' ''error'' w)
      else Inr (showLoading (w\<lparr>isProcessing := True\<rparr>)))"

definition splitSelected_try :: "env \<Rightarrow> app \<Rightarrow> app" where
  "splitSelected_try env w =
     (let selectedPages = filter (\<lambda>p. setHas (selectedIds w) (pageId p)) (pages w)
      in case splitLoop env selectedPages 0 w of
           (w', Some e) \<Rightarrow>
             showToast (''Error splitting PDF: '' @ message e) ''error'' (hideLoading w')
         | (w', None) \<Rightarrow>
             showToast (''Split '' @ showNat (length selectedPages)
                 @ '' page(s) into separate PDFs'') ''success'' (hideLoading w'))"

definition splitSelected :: "env \<Rightarrow> app \<Rightarrow> app" where
  "splitSelected env w =
     (case splitSelected_begin w of
        Inl w' \<Rightarrow> w'
      | Inr w1 \<Rightarrow> finallyBlock (splitSelected_try env w1))"

subsection \<open>Merge\<close>

text \<open>
  The pages an export works on, the conditional expression that \<^verbatim>\<open>showExportPreview\<close>,
  \<^verbatim>\<open>updateFilenameFromTemplate\<close> and \<^verbatim>\<open>mergeAndExport\<close> each evaluate.
\<close>

definition pagesToExport :: "app \<Rightarrow> page list" where
  "pagesToExport w =
     (if length (selectedIds w) > 0
      then filter (\<lambda>p. setHas (selectedIds w) (pageId p)) (pages w)
      else pages w)"

text \<open>The loop of \<^verbatim>\<open>mergeAndExport\<close>: the document built so far is \<open>newPdf\<close>.\<close>

fun mergeLoop :: "env \<Rightarrow> page list \<Rightarrow> pdfdoc \<Rightarrow> error + pdfdoc" where
  "mergeLoop env [] newPdf = Inr newPdf"
| "mergeLoop env (page # rest) newPdf =
     (case load env (bytes (pdfBytes page)) of
        Inl e \<Rightarrow> Inl e
      | Inr sourcePdf \<Rightarrow>
          (case copyPages sourcePdf [pageIndex page] of
             Inl e \<Rightarrow> Inl e
           | Inr copied \<Rightarrow>
               (case (if rotation page > 0 then setRotation (rotation page) (hd copied)
                      else Inr (hd copied)) of
                  Inl e \<Rightarrow> Inl e
                | Inr copiedPage \<Rightarrow> mergeLoop env rest (addPage newPdf copiedPage))))"

definition mergeAndExport_begin :: "app \<Rightarrow> app + app" where
  "mergeAndExport_begin w =
     (if length (pages w) = 0 then Inl (showToast ''No pages to merge'' ''error'' w)
      else Inr (showLoading (w\<lparr>isProcessing := True\<rparr>)))"

definition mergeAndExport_catch :: "error \<Rightarrow> app \<Rightarrow> app" where
  "mergeAndExport_catch e w =
     showToast (''Error merging PDF: '' @ message e) ''error'' (hideLoading w)"

text \<open>
  The \<^verbatim>\<open>try\<close> block up to the saved bytes (\<open>mergeAssemble\<close>: a new document, the loop,
  the save), and the whole block with its \<^verbatim>\<open>catch\<close>.
\<close>

definition mergeAssemble :: "env \<Rightarrow> page list \<Rightarrow> error + byte list" where
  "mergeAssemble env pagesToMerge =
     (case mergeLoop env pagesToMerge [] of
        Inl e \<Rightarrow> Inl e
      | Inr newPdf \<Rightarrow> save env newPdf \<lparr>useObjectStreams = True, addDefaultPage = False\<rparr>)"

definition mergeAndExport_try :: "env \<Rightarrow> app \<Rightarrow> app" where
  "mergeAndExport_try env w =
     (let pagesToMerge = pagesToExport w
      in case mergeAssemble env pagesToMerge of
           Inl e \<Rightarrow> mergeAndExport_catch e w
         | Inr saved \<Rightarrow>
             let filename = currentFilename w @ ''.pdf''
             in showToast (''Exported '' @ showNat (length pagesToMerge) @ '' pages as ''
                    @ [CHR 0x22] @ filename @ [CHR 0x22]) ''success''
                  (hideLoading (downloadBlob saved filename w)))"

definition mergeAndExport :: "env \<Rightarrow> app \<Rightarrow> app" where
  "mergeAndExport env w =
     (case mergeAndExport_begin w of
        Inl w' \<Rightarrow> w'
      | Inr w1 \<Rightarrow> finallyBlock (mergeAndExport_try env w1))"

subsection \<open>Size estimate\<close>

text \<open>
  JavaScript numbers are modelled as exact reals: rounding to the nearest double is left
  out, so where the exact value lies on or next to a rounding boundary of
  \<^verbatim>\<open>Math.round\<close> or \<^verbatim>\<open>toFixed\<close> the code can print the neighbouring digit. A division by
  zero gives \<^verbatim>\<open>Infinity\<close> or \<^verbatim>\<open>NaN\<close>, and either stays through
  the additions and the multiplication that follow: \<open>None\<close> stands for both.

  The second loop of \<^verbatim>\<open>estimateFileSize(pages)\<close>, with the set \<open>processed\<close> (of array
  identities) and \<open>estimatedBytes\<close>; \<open>statePages\<close> is \<^verbatim>\<open>state.pages\<close>. The first loop
  and the sum \<open>totalBytes\<close> built from it are never read.
\<close>

definition estimateStep ::
  "page list \<Rightarrow> page list \<Rightarrow> nat list \<times> real option \<Rightarrow> page \<Rightarrow> nat list \<times> real option" where
  "estimateStep pagesArg statePages acc page =
     (case acc of (processed, estimatedBytes) \<Rightarrow>
        if addr (pdfBytes page) \<in> set processed then (processed, estimatedBytes)
        else
          let pagesFromSource =
                length (filter (\<lambda>p. addr (pdfBytes p) = addr (pdfBytes page)) pagesArg);
              totalPagesInSource =
                length (filter (\<lambda>p. addr (pdfBytes p) = addr (pdfBytes page)) statePages);
              share =
                (if totalPagesInSource = 0 then None
                 else Some (real (length (bytes (pdfBytes page))) * real pagesFromSource
                              / real totalPagesInSource))
          in (processed @ [addr (pdfBytes page)],
              case (estimatedBytes, share) of
                (Some x, Some y) \<Rightarrow> Some (x + y)
              | _ \<Rightarrow> None))"

definition estimatedBytes :: "page list \<Rightarrow> page list \<Rightarrow> real option" where
  "estimatedBytes pagesArg statePages =
     map_option (\<lambda>x. x * (85 / 100))
       (snd (foldl (estimateStep pagesArg statePages) ([], Some 0) pagesArg))"

text \<open>
  \<^verbatim>\<open>Math.round\<close> and \<^verbatim>\<open>toFixed(1)\<close> on a number that is not negative, and the
  formatting at the end of \<^verbatim>\<open>estimateFileSize\<close>.
\<close>

definition mathRound :: "real \<Rightarrow> nat" where
  "mathRound x = nat \<lfloor>x + 1 / 2\<rfloor>"

definition toFixed1 :: "real \<Rightarrow> string" where
  "toFixed1 x =
     (let n = nat \<lfloor>x * 10 + 1 / 2\<rfloor> in showNat (n div 10) @ ''.'' @ showNat (n mod 10))"

definition formatSize :: "real \<Rightarrow> string" where
  "formatSize b =
     (if b < 1024 then showNat (mathRound b) @ '' B''
      else if b < 1024 * 1024 then showNat (mathRound (b / 1024)) @ '' KB''
      else toFixed1 (b / (1024 * 1024)) @ '' MB'')"

definition estimateFileSize :: "page list \<Rightarrow> app \<Rightarrow> string option" where
  "estimateFileSize pagesArg w = map_option formatSize (estimatedBytes pagesArg (pages w))"

subsection \<open>Filename rules\<close>

text \<open>
  \<^verbatim>\<open>String.prototype.trim\<close> strips white space and line terminators from both ends;
  among the code units up to 0xFF these are the seven below. The regular expression
  \<^verbatim>\<open>/[\\/:*?"<>|]/\<close> matches a string that holds one of nine characters (0x5C is the
  backslash, 0x22 the double quote).
\<close>

definition isWhiteSpace :: "char \<Rightarrow> bool" where
  "isWhiteSpace c =
     (c \<in> set [CHR 0x09, CHR 0x0A, CHR 0x0B, CHR 0x0C, CHR 0x0D, CHR 0x20, CHR 0xA0])"

definition trim :: "string \<Rightarrow> string" where
  "trim s = rev (dropWhile isWhiteSpace (rev (dropWhile isWhiteSpace s)))"

definition invalidCharList :: "char list" where
  "invalidCharList =
     [CHR 0x5C, CHR ''/'', CHR '':'', CHR ''*'', CHR ''?'', CHR 0x22, CHR ''<'', CHR ''>'',
      CHR ''|'']"

definition invalidChars :: "string \<Rightarrow> bool" where
  "invalidChars s = list_ex (\<lambda>c. c \<in> set invalidCharList) s"

definition emptyMessage :: string where
  "emptyMessage = ''Filename cannot be empty''"

definition tooLongMessage :: string where
  "tooLongMessage = ''Filename too long (max 100 characters)''"

definition invalidMessage :: string where
  "invalidMessage =
     ''Invalid characters: '' @ [CHR 0x5C] @ '' / : * ? '' @ [CHR 0x22] @ '' < > |''"

text \<open>\<^verbatim>\<open>validateFilenameInput\<close>: the state afterwards and the value returned.\<close>

definition validateFilenameInput :: "app \<Rightarrow> app \<times> bool" where
  "validateFilenameInput w =
     (let v = trim (filenameInput w);
          err = (if length v = 0 then emptyMessage
                 else if length v > 100 then tooLongMessage
                 else if invalidChars v then invalidMessage
                 else []);
          w1 = w\<lparr>filenameError := err, confirmExportDisabled := (err \<noteq> [])\<rparr>
      in (if err = [] then w1\<lparr>currentFilename := v\<rparr> else w1, err = []))"

definition updateFilenameFromTemplate :: "env \<Rightarrow> app \<Rightarrow> app" where
  "updateFilenameFromTemplate env w =
     (let filename =
            (if filenameTemplate w = ''merged'' then ''merged''
             else if filenameTemplate w = ''pages''
               then ''pages_1-'' @ showNat (length (pagesToExport w))
             else if filenameTemplate w = ''date'' then ''document_'' @ today env
             else if filenameInput w = [] then ''merged'' else filenameInput w)
      in fst (validateFilenameInput (w\<lparr>filenameInput := filename, currentFilename := filename\<rparr>)))"

definition selectFilenameTemplate :: "env \<Rightarrow> string \<Rightarrow> app \<Rightarrow> app" where
  "selectFilenameTemplate env template w =
     updateFilenameFromTemplate env (w\<lparr>filenameTemplate := template\<rparr>)"

text \<open>Typing in the filename field sets its value and runs the \<^verbatim>\<open>input\<close> listener.\<close>

definition inputFilename :: "string \<Rightarrow> app \<Rightarrow> app" where
  "inputFilename v w = fst (validateFilenameInput (w\<lparr>filenameInput := v\<rparr>))"

subsection \<open>Export dialog\<close>

definition hideExportPreview :: "app \<Rightarrow> app" where
  "hideExportPreview w = w\<lparr>modalVisible := False\<rparr>"

definition showExportPreview :: "env \<Rightarrow> app \<Rightarrow> app" where
  "showExportPreview env w =
     (if length (pages w) = 0 then showToast ''No pages to export'' ''error'' w
      else
        let w1 = w\<lparr>statFileSize := estimateFileSize (pagesToExport w) w\<rparr>;
            w2 = updateFilenameFromTemplate env w1
        in w2\<lparr>modalVisible := True\<rparr>)"

definition confirmAndExport :: "env \<Rightarrow> app \<Rightarrow> app" where
  "confirmAndExport env w =
     (case validateFilenameInput w of
        (w1, False) \<Rightarrow> w1
      | (w1, True) \<Rightarrow> mergeAndExport env (hideExportPreview w1))"

subsection \<open>The earlier variant\<close>

text \<open>
  In \<^verbatim>\<open>app.js\<close> a page object has no rotation, which the record above renders as a
  rotation of 0. Its \<^verbatim>\<open>processFiles\<close>, \<^verbatim>\<open>handlePageDrop\<close>, selection functions and
  \<^verbatim>\<open>deleteSelected\<close> are the ones above. Its export loops copy the page and add it
  without a test of the rotation; its \<^verbatim>\<open>splitSelected\<close> is otherwise the one above
  (\<open>splitOne_appjs\<close> is the round of its loop), and its \<^verbatim>\<open>mergeAndExport\<close>, which the
  merge button calls directly, names the file by the selection and the date.
\<close>

fun mergeLoop_appjs :: "env \<Rightarrow> page list \<Rightarrow> pdfdoc \<Rightarrow> error + pdfdoc" where
  "mergeLoop_appjs env [] newPdf = Inr newPdf"
| "mergeLoop_appjs env (page # rest) newPdf =
     (case load env (bytes (pdfBytes page)) of
        Inl e \<Rightarrow> Inl e
      | Inr sourcePdf \<Rightarrow>
          (case copyPages sourcePdf [pageIndex page] of
             Inl e \<Rightarrow> Inl e
           | Inr copied \<Rightarrow> mergeLoop_appjs env rest (addPage newPdf (hd copied))))"

definition mergeAndExport_appjs_try :: "env \<Rightarrow> app \<Rightarrow> app" where
  "mergeAndExport_appjs_try env w =
     (let pagesToMerge = pagesToExport w
      in case (case mergeLoop_appjs env pagesToMerge [] of
                 Inl e \<Rightarrow> Inl e
               | Inr newPdf \<Rightarrow>
                   save env newPdf \<lparr>useObjectStreams = True, addDefaultPage = False\<rparr>) of
           Inl e \<Rightarrow> mergeAndExport_catch e w
         | Inr saved \<Rightarrow>
             let filename =
                   (if length (selectedIds w) > 0
                    then ''merged_selected_'' @ today env @ ''.pdf''
                    else ''merged_all_'' @ today env @ ''.pdf'');
                 pageLabel = (if length (selectedIds w) > 0 then ''selected'' else ''all'')
             in showToast (''Exported '' @ showNat (length pagesToMerge) @ '' '' @ pageLabel
                    @ '' pages'') ''success''
                  (hideLoading (downloadBlob saved filename w)))"

definition mergeAndExport_appjs :: "env \<Rightarrow> app \<Rightarrow> app" where
  "mergeAndExport_appjs env w =
     (case mergeAndExport_begin w of
        Inl w' \<Rightarrow> w'
      | Inr w1 \<Rightarrow> finallyBlock (mergeAndExport_appjs_try env w1))"

definition splitOne_appjs :: "env \<Rightarrow> page \<Rightarrow> error + byte list" where
  "splitOne_appjs env page =
     (case load env (bytes (pdfBytes page)) of
        Inl e \<Rightarrow> Inl e
      | Inr sourcePdf \<Rightarrow>
          (case copyPages sourcePdf [pageIndex page] of
             Inl e \<Rightarrow> Inl e
           | Inr copied \<Rightarrow>
               save env (addPage [] (hd copied))
                 \<lparr>useObjectStreams = True, addDefaultPage = False\<rparr>))"

subsection \<open>Event wiring\<close>

text \<open>
  The listeners that \<^verbatim>\<open>setupEventListeners\<close> and \<^verbatim>\<open>createPageCard\<close> attach. The
  listeners of a card (click, rotate, drag start, drop) exist while the card is in the
  grid and pass the id of the card's page; a disabled confirm button does not click.
\<close>

datatype event =
    FileDrop "jsfile list"
  | FileSelect "jsfile list"
  | CardClick string
  | RotateClick string
  | CardDragStart string
  | CardDragEnd
  | CardDrop string
  | SelectAllClick
  | ClearAllClick
  | DeleteClick
  | SplitClick
  | MergeClick
  | ModalClose
  | FilenameInput string
  | TemplateClick string
  | ConfirmExportClick

fun dispatch :: "env \<Rightarrow> event \<Rightarrow> app \<Rightarrow> app" where
  "dispatch env (FileDrop files) w = handleFileDrop env files w"
| "dispatch env (FileSelect files) w = handleFileSelect env files w"
| "dispatch env (CardClick i) w = (if i \<in> set (grid w) then togglePageSelection i w else w)"
| "dispatch env (RotateClick i) w = (if i \<in> set (grid w) then rotatePage i w else w)"
| "dispatch env (CardDragStart i) w =
     (if i \<in> set (grid w) then handlePageDragStart i w else w)"
| "dispatch env CardDragEnd w = handlePageDragEnd w"
| "dispatch env (CardDrop i) w = (if i \<in> set (grid w) then handlePageDrop i w else w)"
| "dispatch env SelectAllClick w = selectAll w"
| "dispatch env ClearAllClick w = clearAll w"
| "dispatch env DeleteClick w = deleteSelected w"
| "dispatch env SplitClick w = splitSelected env w"
| "dispatch env MergeClick w = showExportPreview env w"
| "dispatch env ModalClose w = hideExportPreview w"
| "dispatch env (FilenameInput v) w = inputFilename v w"
| "dispatch env (TemplateClick t) w = selectFilenameTemplate env t w"
| "dispatch env ConfirmExportClick w =
     (if confirmExportDisabled w then w else confirmAndExport env w)"

text \<open>
  Every selected id is the id of a page of the collection; every card of the grid is the
  card of a page of the collection.
\<close>

definition selectionValid :: "app \<Rightarrow> bool" where
  "selectionValid w = (set (selectedIds w) \<subseteq> set (map pageId (pages w)))"

definition cardsValid :: "app \<Rightarrow> bool" where
  "cardsValid w = (set (grid w) \<subseteq> set (map pageId (pages w)))"

subsection \<open>What an ingestion adds\<close>

text \<open>
  For the statements about \<^verbatim>\<open>processFiles\<close>: a file is \<open>decodable\<close> when its bytes
  can be read and the document-model library decodes them, and its \<open>pageCount\<close> is the
  number of pages of that document. \<open>rendered env f\<close> is the number of pages of \<open>f\<close>
  whose thumbnails are drawn before the first failure of the renderer (none when the
  renderer cannot open the file), and \<open>f\<close> is \<open>ingestible\<close> when that is all of them.
  \<open>growth env files\<close> adds the page counts of the files before the first one that is
  not ingestible, and the rendered pages of that one.
\<close>

definition decodable :: "env \<Rightarrow> jsfile \<Rightarrow> bool" where
  "decodable env f = (\<not> isl (arrayBuffer f) \<and> \<not> isl (load env (projr (arrayBuffer f))))"

definition pageCount :: "env \<Rightarrow> jsfile \<Rightarrow> nat" where
  "pageCount env f =
     (case arrayBuffer f of
        Inl _ \<Rightarrow> 0
      | Inr buf \<Rightarrow> (case load env buf of Inl _ \<Rightarrow> 0 | Inr doc \<Rightarrow> length doc))"

definition thumbnailOk :: "env \<Rightarrow> byte list \<Rightarrow> nat \<Rightarrow> bool" where
  "thumbnailOk env buf i = (\<not> isl (generateThumbnail env buf (i + 1)))"

definition rendered :: "env \<Rightarrow> jsfile \<Rightarrow> nat" where
  "rendered env f =
     (case arrayBuffer f of
        Inl _ \<Rightarrow> 0
      | Inr buf \<Rightarrow>
          (case load env buf of
             Inl _ \<Rightarrow> 0
           | Inr doc \<Rightarrow>
               (case getDocument env buf of
                  Inl _ \<Rightarrow> 0
                | Inr _ \<Rightarrow> length (takeWhile (thumbnailOk env buf) [0..<length doc]))))"

definition ingestible :: "env \<Rightarrow> jsfile \<Rightarrow> bool" where
  "ingestible env f = (\<not> isl (arrayBuffer f) \<and> \<not> isl (load env (projr (arrayBuffer f)))
      \<and> rendered env f = pageCount env f \<and> \<not> isl (getDocument env (projr (arrayBuffer f))))"

definition growth :: "env \<Rightarrow> jsfile list \<Rightarrow> nat" where
  "growth env files =
     sum_list (map (pageCount env) (takeWhile (ingestible env) files))
       + (case dropWhile (ingestible env) files of [] \<Rightarrow> 0 | f # _ \<Rightarrow> rendered env f)"

subsection \<open>The size estimate as specified\<close>

text \<open>
  The estimate in the words of the specification: for each distinct source buffer of the
  planned pages, its byte length times the share of its pages that are planned (planned
  pages drawn from the buffer over the total number of pages in the buffer, which is the
  page count of the document the buffer decodes to), summed, times 0.85.
\<close>

definition totalPagesIn :: "env \<Rightarrow> u8array \<Rightarrow> nat" where
  "totalPagesIn env b = (case load env (bytes b) of Inl _ \<Rightarrow> 0 | Inr doc \<Rightarrow> length doc)"

definition spec_estimatedBytes :: "env \<Rightarrow> page list \<Rightarrow> real" where
  "spec_estimatedBytes env planned =
     (\<Sum>b\<leftarrow>remdups (map pdfBytes planned).
        real (length (bytes b))
          * (real (length (filter (\<lambda>p. pdfBytes p = b) planned)) / real (totalPagesIn env b)))
     * (85 / 100)"

text \<open>
  What the code computes, for comparison: \<open>share ps st b\<close> is the term that
  \<^verbatim>\<open>estimateFileSize\<close> adds for the buffer \<open>b\<close>, with the planned pages \<open>ps\<close> and the
  collection \<open>st\<close>. \<open>sameArray\<close> says that the pages of a list that hold an array of the
  same identity hold the same array.
\<close>

definition sameArray :: "page list \<Rightarrow> bool" where
  "sameArray ps = (\<forall>p\<in>set ps. \<forall>q\<in>set ps.
      addr (pdfBytes p) = addr (pdfBytes q) \<longrightarrow> pdfBytes p = pdfBytes q)"

definition share :: "page list \<Rightarrow> page list \<Rightarrow> u8array \<Rightarrow> real" where
  "share ps st b =
     real (length (bytes b)) * real (length (filter (\<lambda>p. addr (pdfBytes p) = addr b) ps))
       / real (length (filter (\<lambda>p. addr (pdfBytes p) = addr b) st))"

subsection \<open>Example states\<close>

text \<open>\<open>immediatelyBefore x y xs\<close>: somewhere in \<open>xs\<close>, \<open>y\<close> is the element right after \<open>x\<close>.\<close>

definition immediatelyBefore :: "'a \<Rightarrow> 'a \<Rightarrow> 'a list \<Rightarrow> bool" where
  "immediatelyBefore x y xs = ((x, y) \<in> set (zip xs (tl xs)))"

definition mkPage :: "string \<Rightarrow> u8array \<Rightarrow> nat \<Rightarrow> page" where
  "mkPage i buf k = \<lparr> pageId = i, sourceFile = ''a.pdf'', pageIndex = k,
     originalPageNumber = Suc k, pdfBytes = buf, thumbnail = [], rotation = 0 \<rparr>"

text \<open>Three pages of one source, the first of them being dragged.\<close>

definition threePages :: app where
  "threePages = initial\<lparr>
     pages := [mkPage ''p1'' (U8 0 []) 0, mkPage ''p2'' (U8 0 []) 1, mkPage ''p3'' (U8 0 []) 2],
     grid := [''p1'', ''p2'', ''p3''], draggedId := Some ''p1'' \<rparr>"

text \<open>A filename of 101 characters: 99 letters and two trailing blanks.\<close>

definition paddedName :: string where
  "paddedName = replicate 99 (CHR ''a'') @ ''  ''"

text \<open>
  A source of two pages, the second stored with a rotation of 90, and collaborators that
  decode the bytes 1 2 3 to it; the bytes 4 5 are a one-page document that the
  document-model library decodes and the renderer refuses. The serialiser of \<open>env0\<close>
  writes one byte per page, the quarter turns of its rotation entry; that of \<open>envFail\<close>
  throws on a document that holds the second page turned to 180.
\<close>

definition docA :: pdfdoc where
  "docA = [PdfPage ''A1'' 0, PdfPage ''A2'' 90]"

definition env0 :: env where
  "env0 = \<lparr> load = (\<lambda>bs. if bs = [1, 2, 3] then Inr docA
                       else if bs = [4, 5] then Inr [PdfPage ''E1'' 0]
                       else Inl (Error ''Failed to parse PDF document'')),
     save = (\<lambda>doc opts. Inr (map (\<lambda>pg. if rotateEntry pg = 0 then 0
                                    else if rotateEntry pg = 90 then 1
                                    else if rotateEntry pg = 180 then 2 else 3) doc)),
     getDocument = (\<lambda>bs. if bs = [1, 2, 3] then Inr () else Inl (Error ''Invalid PDF structure'')),
     generateThumbnail = (\<lambda>bs n. Inr ''jpeg''),
     generateId = (\<lambda>n. ''page_'' @ showNat n),
     today = ''2026-01-01'' \<rparr>"

definition envFail :: env where
  "envFail = env0\<lparr> save := (\<lambda>doc opts. if PdfPage ''A2'' 180 \<in> set doc
       then Inl (Error ''cannot serialize'') else save env0 doc opts) \<rparr>"

text \<open>
  The two pages of that source in a collection, the second rotated twice, both selected
  (the second first).
\<close>

definition pageP1 :: page where
  "pageP1 = mkPage ''p1'' (U8 0 [1, 2, 3]) 0"

definition pageP2 :: page where
  "pageP2 = (mkPage ''p2'' (U8 0 [1, 2, 3]) 1)\<lparr>rotation := 180\<rparr>"

definition twoSelected :: app where
  "twoSelected = initial\<lparr> pages := [pageP1, pageP2], grid := [''p1'', ''p2''],
     selectedIds := [''p2'', ''p1''] \<rparr>"

text \<open>
  Two pages that cannot be copied: \<open>pageX\<close> holds bytes that do not decode, \<open>pageY\<close>
  an index past the end of its source. Each is in a collection behind the first page of
  the source, with both pages selected.
\<close>

definition pageX :: page where
  "pageX = mkPage ''x'' (U8 1 []) 0"

definition pageY :: page where
  "pageY = mkPage ''y'' (U8 0 [1, 2, 3]) 7"

definition withUnreadable :: app where
  "withUnreadable = initial\<lparr> pages := [pageP1, pageX], grid := [''p1'', ''x''],
     selectedIds := [''p1'', ''x''] \<rparr>"

definition withOutOfRange :: app where
  "withOutOfRange = initial\<lparr> pages := [pageP1, pageY], grid := [''p1'', ''y''],
     selectedIds := [''p1'', ''y''] \<rparr>"

text \<open>Three uploads: the two-page source, bytes that do not decode, the locked document.\<close>

definition goodFile :: jsfile where
  "goodFile = \<lparr> name = ''a.pdf'', mimeType = ''application/pdf'', arrayBuffer = Inr [1, 2, 3] \<rparr>"

definition badFile :: jsfile where
  "badFile = \<lparr> name = ''broken.pdf'', mimeType = ''application/pdf'', arrayBuffer = Inr [] \<rparr>"

definition lockedFile :: jsfile where
  "lockedFile = \<lparr> name = ''locked.pdf'', mimeType = ''application/pdf'',
     arrayBuffer = Inr [4, 5] \<rparr>"

text \<open>The state \<open>twoSelected\<close> with an ingestion in flight: the guard set, the overlay up.\<close>

definition busy :: app where
  "busy = twoSelected\<lparr>isProcessing := True, loadingVisible := True\<rparr>"

text \<open>
  A source of 1000 bytes and two pages is uploaded. In \<open>selectedOne\<close> its first page is
  then selected; in \<open>deletedOne\<close> its second page is selected and deleted instead. The
  first page is \<open>remaining\<close>, the second \<open>deletedPage\<close>.
\<close>

definition bigFile :: jsfile where
  "bigFile = \<lparr> name = ''big.pdf'', mimeType = ''application/pdf'',
     arrayBuffer = Inr (replicate 1000 0) \<rparr>"

definition envBig :: env where
  "envBig = env0\<lparr> load := (\<lambda>bs. if length bs = 1000 then Inr docA
        else Inl (Error ''Failed to parse PDF document'')),
     getDocument := (\<lambda>bs. Inr ()) \<rparr>"

definition remaining :: page where
  "remaining = \<lparr> pageId = ''page_0'', sourceFile = ''big.pdf'', pageIndex = 0,
     originalPageNumber = 1, pdfBytes = U8 0 (replicate 1000 0), thumbnail = ''jpeg'',
     rotation = 0 \<rparr>"

definition deletedPage :: page where
  "deletedPage = remaining\<lparr>pageId := ''page_1'', pageIndex := 1, originalPageNumber := 2\<rparr>"

definition selectedOne :: app where
  "selectedOne = foldl (\<lambda>s ev. dispatch envBig ev s) initial
     [FileSelect [bigFile], CardClick ''page_0'']"

definition deletedOne :: app where
  "deletedOne = foldl (\<lambda>s ev. dispatch envBig ev s) initial
     [FileSelect [bigFile], CardClick ''page_1'', DeleteClick]"

section \<open>Properties\<close>

subsection \<open>findIndex and splice\<close>

lemma findIndex_Some:
  "findIndex P xs = Some i \<Longrightarrow> i < length xs \<and> P (xs ! i) \<and> (\<forall>j<i. \<not> P (xs ! j))"
proof (induction xs arbitrary: i)
  case Nil
  then show ?case by simp
next
  case (Cons x xs)
  show ?case
  proof (cases "P x")
    case True
    with Cons.prems show ?thesis by simp
  next
    case False
    with Cons.prems obtain k where k: "findIndex P xs = Some k" "i = Suc k"
      by auto
    from Cons.IH [OF k(1)] False k(2) show ?thesis
      by (auto simp: nth_Cons split: nat.splits)
  qed
qed

lemma findIndex_None: "findIndex P xs = None \<longleftrightarrow> (\<forall>x\<in>set xs. \<not> P x)"
  by (induction xs) auto

lemma splice_findIndex:
  "i < length xs \<Longrightarrow> splice_js i (Suc 0) [] xs = ([xs ! i], take i xs @ drop (Suc i) xs)"
  by (simp add: splice_js_def flip: Cons_nth_drop_Suc)

lemma splice_insert: "snd (splice_js j 0 [x] xs) = take j xs @ [x] @ drop j xs"
  by (simp add: splice_js_def)

lemma handlePageDrop_moves:
  assumes "draggedId w = Some d" "d \<noteq> t"
    and "findIndex (\<lambda>p. pageId p = d) (pages w) = Some i"
    and "findIndex (\<lambda>p. pageId p = t) (pages w) = Some j"
  shows "pages (handlePageDrop t w) =
           take j (take i (pages w) @ drop (Suc i) (pages w)) @ [pages w ! i]
             @ drop j (take i (pages w) @ drop (Suc i) (pages w))"
proof -
  from assms(3) have i: "i < length (pages w)"
    by (simp add: findIndex_Some)
  have eq: "(\<lambda>p. Some (pageId p) = draggedId w) = (\<lambda>p. pageId p = d)"
    using assms(1) by auto
  show ?thesis
    using assms i
    by (simp add: handlePageDrop_def eq splice_findIndex splice_insert renderPages_def
          del: take_append drop_append)
qed

lemma handlePageDrop_noop:
  assumes "draggedId w = Some t
      \<or> findIndex (\<lambda>p. Some (pageId p) = draggedId w) (pages w) = None
      \<or> findIndex (\<lambda>p. pageId p = t) (pages w) = None"
  shows "handlePageDrop t w = w"
  using assms by (auto simp: handlePageDrop_def split: option.splits)

lemma mset_remove_nth:
  "i < length xs \<Longrightarrow> mset (take i xs @ drop (Suc i) xs) + {#xs ! i#} = mset xs"
proof -
  assume "i < length xs"
  then have "xs = take i xs @ xs ! i # drop (Suc i) xs"
    by (rule id_take_nth_drop)
  then have "mset xs = mset (take i xs @ xs ! i # drop (Suc i) xs)"
    by simp
  then show ?thesis by simp
qed

lemma mset_insert_at: "mset (take j xs @ [x] @ drop j xs) = mset xs + {#x#}"
proof -
  have "mset (take j xs) + mset (drop j xs) = mset xs"
    by (metis append_take_drop_id mset_append)
  then show ?thesis by simp
qed

lemma remove_inserted:
  "length a = j \<Longrightarrow> take j (a @ x # b) @ drop (Suc j) (a @ x # b) = a @ b"
  by simp

lemma handlePageDrop_mset: "mset (pages (handlePageDrop t w)) = mset (pages w)"
proof (cases "draggedId w = Some t
      \<or> findIndex (\<lambda>p. Some (pageId p) = draggedId w) (pages w) = None
      \<or> findIndex (\<lambda>p. pageId p = t) (pages w) = None")
  case True
  then show ?thesis by (simp add: handlePageDrop_noop)
next
  case False
  then obtain i j
    where ij: "findIndex (\<lambda>p. Some (pageId p) = draggedId w) (pages w) = Some i"
      "findIndex (\<lambda>p. pageId p = t) (pages w) = Some j"
      and ne: "draggedId w \<noteq> Some t"
    by auto
  from findIndex_Some [OF ij(1)]
  have i: "i < length (pages w)" and d: "draggedId w = Some (pageId (pages w ! i))"
    by simp_all
  have eq: "(\<lambda>p. Some (pageId p) = draggedId w) = (\<lambda>p. pageId p = pageId (pages w ! i))"
    using d by auto
  have "pages (handlePageDrop t w) =
           take j (take i (pages w) @ drop (Suc i) (pages w)) @ [pages w ! i]
             @ drop j (take i (pages w) @ drop (Suc i) (pages w))"
    using d ne ij
    by (intro handlePageDrop_moves [where d = "pageId (pages w ! i)"]) (auto simp: eq)
  then show ?thesis
    using mset_remove_nth [OF i] by (simp only: mset_insert_at)
qed

subsection \<open>Reorder is a permutation\<close>

text \<open>
  Claim C5. A drop never changes the multiset of page ids nor the length of the
  collection. A drop of the dragged page onto itself, and a drop in which the dragged id
  or the target id is the id of no page of the collection (\<^verbatim>\<open>findIndex\<close> gives -1),
  leaves the whole state as it was.
\<close>

theorem handlePageDrop_permutation:
  "mset (map pageId (pages (handlePageDrop t w))) = mset (map pageId (pages w))
   \<and> length (pages (handlePageDrop t w)) = length (pages w)
   \<and> (draggedId w = Some t
        \<or> findIndex (\<lambda>p. Some (pageId p) = draggedId w) (pages w) = None
        \<or> findIndex (\<lambda>p. pageId p = t) (pages w) = None
      \<longrightarrow> handlePageDrop t w = w)"
proof -
  have m: "mset (pages (handlePageDrop t w)) = mset (pages w)"
    by (rule handlePageDrop_mset)
  from m have "image_mset pageId (mset (pages (handlePageDrop t w)))
      = image_mset pageId (mset (pages w))"
    by simp
  then have 1: "mset (map pageId (pages (handlePageDrop t w))) = mset (map pageId (pages w))"
    by simp
  from m have 2: "length (pages (handlePageDrop t w)) = length (pages w)"
    by (rule mset_eq_length)
  from 1 2 show ?thesis
    by (auto simp: handlePageDrop_noop)
qed

theorem handlePageDrop_permutation_witness:
  "draggedId threePages = Some ''p1''
   \<and> handlePageDrop ''p1'' threePages = threePages
   \<and> length (pages (handlePageDrop ''p1'' threePages)) = 3"
proof -
  have h: "draggedId threePages = Some ''p1''"
    by (simp add: threePages_def)
  have l: "length (pages threePages) = 3"
    by (simp add: threePages_def)
  from handlePageDrop_permutation [of "''p1''" threePages] h l show ?thesis
    by simp
qed

subsection \<open>Where a dropped page lands\<close>

text \<open>
  Claim C6, as stated, fails: the page dragged from the first position onto the third
  page ends up right after that page, not right before it.
\<close>

theorem handlePageDrop_not_before_counterexample:
  "map pageId (pages (handlePageDrop ''p3'' threePages)) = [''p2'', ''p3'', ''p1'']
   \<and> \<not> immediatelyBefore ''p1'' ''p3'' (map pageId (pages (handlePageDrop ''p3'' threePages)))"
  by (simp add: immediatelyBefore_def handlePageDrop_def threePages_def initial_def
      mkPage_def splice_js_def renderPages_def)

text \<open>
  Claim C6, amended. When the dragged page (at index \<open>i\<close>) is dropped onto another page
  of the collection (at index \<open>j\<close>), the dragged page takes index \<open>j\<close>, the index the
  target had. The target is then at \<open>j + 1\<close> when the page was dragged from behind it
  (the dragged page immediately precedes it) and at \<open>j - 1\<close> when the page was dragged
  from before it (the dragged page immediately follows it). The other pages keep their
  order, and the collection holds the same page objects as before, each as often as
  before: none duplicated, dropped or changed.
\<close>

theorem handlePageDrop_position:
  assumes "draggedId w = Some d" "d \<noteq> t"
    and "findIndex (\<lambda>p. pageId p = d) (pages w) = Some i"
    and "findIndex (\<lambda>p. pageId p = t) (pages w) = Some j"
  shows "pages (handlePageDrop t w) ! j = pages w ! i
    \<and> pages (handlePageDrop t w) ! (if j < i then Suc j else j - 1) = pages w ! j
    \<and> take j (pages (handlePageDrop t w)) @ drop (Suc j) (pages (handlePageDrop t w))
        = take i (pages w) @ drop (Suc i) (pages w)
    \<and> mset (pages (handlePageDrop t w)) = mset (pages w)"
proof -
  let ?ps = "pages w"
  let ?rem = "take i ?ps @ drop (Suc i) ?ps"
  from findIndex_Some [OF assms(3)] have i: "i < length ?ps" "pageId (?ps ! i) = d"
    by simp_all
  from findIndex_Some [OF assms(4)] have j: "j < length ?ps" "pageId (?ps ! j) = t"
    by simp_all
  from i j assms(2) have ne: "i \<noteq> j" by auto
  have len: "length ?rem = length ?ps - 1" using i by simp
  with j i ne have jl: "j \<le> length ?rem" by simp
  have r: "pages (handlePageDrop t w) = take j ?rem @ [?ps ! i] @ drop j ?rem"
    by (rule handlePageDrop_moves [OF assms])
  have 1: "pages (handlePageDrop t w) ! j = ?ps ! i"
    unfolding r using jl by (simp add: nth_append del: take_append drop_append)
  have 2: "pages (handlePageDrop t w) ! Suc j = ?ps ! j" if "j < i"
  proof -
    have "pages (handlePageDrop t w) ! Suc j = ?rem ! j"
      unfolding r using jl that i by (simp add: nth_append del: take_append drop_append)
    also have "\<dots> = ?ps ! j" using that i by (simp add: nth_append)
    finally show ?thesis .
  qed
  have 3: "pages (handlePageDrop t w) ! (j - 1) = ?ps ! j" if "i < j"
  proof -
    have "pages (handlePageDrop t w) ! (j - 1) = ?rem ! (j - 1)"
      unfolding r using jl that i by (simp add: nth_append del: take_append drop_append)
    also have "\<dots> = ?ps ! j" using that i j by (simp add: nth_append)
    finally show ?thesis .
  qed
  have 4: "take j (pages (handlePageDrop t w)) @ drop (Suc j) (pages (handlePageDrop t w))
      = ?rem"
  proof -
    have "length (take j ?rem) = j" using jl by simp
    from remove_inserted [OF this, of "?ps ! i" "drop j ?rem"] show ?thesis
      unfolding r by (simp del: take_append drop_append)
  qed
  have 5: "pages (handlePageDrop t w) ! (if j < i then Suc j else j - 1) = ?ps ! j"
    using 2 3 ne by (cases "j < i") auto
  from 1 5 4 handlePageDrop_mset [of t w] show ?thesis by blast
qed

theorem handlePageDrop_position_witness:
  "draggedId threePages = Some ''p1''
   \<and> findIndex (\<lambda>p. pageId p = ''p1'') (pages threePages) = Some 0
   \<and> findIndex (\<lambda>p. pageId p = ''p3'') (pages threePages) = Some 2
   \<and> pages (handlePageDrop ''p3'' threePages) ! 2 = pages threePages ! 0
   \<and> pages (handlePageDrop ''p3'' threePages) ! 1 = pages threePages ! 2"
proof -
  have h1: "draggedId threePages = Some ''p1''"
    by (simp add: threePages_def)
  have h2: "''p1'' \<noteq> ''p3''"
    by simp
  have h3: "findIndex (\<lambda>p. pageId p = ''p1'') (pages threePages) = Some 0"
    by (simp add: threePages_def mkPage_def)
  have h4: "findIndex (\<lambda>p. pageId p = ''p3'') (pages threePages) = Some 2"
    by (simp add: threePages_def mkPage_def)
  from handlePageDrop_position [OF h1 h2 h3 h4] h1 h3 h4 show ?thesis
    by simp
qed

subsection \<open>Filename validation\<close>

lemma set_dropWhile_keeps: "x \<in> set xs \<Longrightarrow> \<not> P x \<Longrightarrow> x \<in> set (dropWhile P xs)"
  by (induction xs) auto

lemma invalid_not_white: "c \<in> set invalidCharList \<Longrightarrow> \<not> isWhiteSpace c"
  by (auto simp: invalidCharList_def isWhiteSpace_def)

lemma invalidChars_trim: "invalidChars (trim s) = (\<exists>c\<in>set s. c \<in> set invalidCharList)"
proof -
  have "c \<in> set (trim s)" if "c \<in> set s" "c \<in> set invalidCharList" for c
    using that unfolding trim_def
    by (simp add: set_dropWhile_keeps invalid_not_white)
  moreover have "c \<in> set s" if "c \<in> set (trim s)" for c
    using that unfolding trim_def by (auto dest!: set_dropWhileD)
  ultimately show ?thesis
    unfolding invalidChars_def list_ex_iff by blast
qed

lemma messages_nonempty:
  "emptyMessage \<noteq> []" "tooLongMessage \<noteq> []" "invalidMessage \<noteq> []"
  by (simp_all add: emptyMessage_def tooLongMessage_def invalidMessage_def)

text \<open>
  Claim C8, as stated, fails: the rule on the length reads the trimmed value, so an input
  of 101 characters that ends in two blanks passes, with no error and with the
  confirmation enabled.
\<close>

theorem validateFilenameInput_padded_counterexample:
  "length paddedName = 101
   \<and> snd (validateFilenameInput (initial\<lparr>filenameInput := paddedName\<rparr>))
   \<and> filenameError (fst (validateFilenameInput (initial\<lparr>filenameInput := paddedName\<rparr>))) = []
   \<and> \<not> confirmExportDisabled (fst (validateFilenameInput (initial\<lparr>filenameInput := paddedName\<rparr>)))"
  by code_simp

text \<open>
  Claim C8, amended. With \<open>v\<close> the input after trimming, validation fails exactly when
  \<open>v\<close> is empty, \<open>v\<close> is longer than 100 characters, or the input holds one of the
  nine characters. The message shown is that of the first rule that fails, in the order
  empty, too long, invalid characters, and it is empty when none fails. The confirmation
  is disabled exactly when validation fails, and \<^verbatim>\<open>confirmAndExport\<close> then returns
  without exporting. An input that passes is accepted with no error, and its trimmed
  value becomes the current filename.
\<close>

theorem validateFilenameInput_rules:
  fixes w :: app
  defines "v \<equiv> trim (filenameInput w)"
  defines "bad \<equiv> (\<exists>c\<in>set (filenameInput w). c \<in> set invalidCharList)"
  shows "snd (validateFilenameInput w) = (\<not> (v = [] \<or> length v > 100 \<or> bad))
   \<and> filenameError (fst (validateFilenameInput w)) =
       (if v = [] then emptyMessage else if length v > 100 then tooLongMessage
        else if bad then invalidMessage else [])
   \<and> confirmExportDisabled (fst (validateFilenameInput w)) = (v = [] \<or> length v > 100 \<or> bad)
   \<and> currentFilename (fst (validateFilenameInput w)) =
       (if v = [] \<or> length v > 100 \<or> bad then currentFilename w else v)
   \<and> confirmAndExport env w =
       (if v = [] \<or> length v > 100 \<or> bad then fst (validateFilenameInput w)
        else mergeAndExport env (hideExportPreview (fst (validateFilenameInput w))))"
  unfolding v_def bad_def
  by (simp add: validateFilenameInput_def confirmAndExport_def Let_def messages_nonempty
      flip: invalidChars_trim)

theorem validateFilenameInput_rules_witness:
  "filenameError (fst (validateFilenameInput (initial\<lparr>filenameInput := []\<rparr>))) = emptyMessage
   \<and> filenameError (fst (validateFilenameInput (initial\<lparr>filenameInput := replicate 101 (CHR ''a'')\<rparr>)))
       = tooLongMessage
   \<and> filenameError (fst (validateFilenameInput (initial\<lparr>filenameInput := ''a/b''\<rparr>)))
       = invalidMessage
   \<and> filenameError (fst (validateFilenameInput (initial\<lparr>filenameInput := ''report_final''\<rparr>))) = []
   \<and> currentFilename (fst (validateFilenameInput (initial\<lparr>filenameInput := '' report_final ''\<rparr>)))
       = ''report_final''"
proof -
  have t: "trim [] = []" "trim (replicate 101 (CHR ''a'')) = replicate 101 (CHR ''a'')"
    "trim ''a/b'' = ''a/b''" "trim ''report_final'' = ''report_final''"
    "trim '' report_final '' = ''report_final''"
    by (simp_all add: trim_def isWhiteSpace_def)
  have i: "CHR ''/'' \<in> set invalidCharList"
    by (simp add: invalidCharList_def)
  from validateFilenameInput_rules [of "initial\<lparr>filenameInput := []\<rparr>"]
    validateFilenameInput_rules [of "initial\<lparr>filenameInput := replicate 101 (CHR ''a'')\<rparr>"]
    validateFilenameInput_rules [of "initial\<lparr>filenameInput := ''a/b''\<rparr>"]
    validateFilenameInput_rules [of "initial\<lparr>filenameInput := ''report_final''\<rparr>"]
    validateFilenameInput_rules [of "initial\<lparr>filenameInput := '' report_final ''\<rparr>"]
  show ?thesis
    by (simp add: t i invalidCharList_def)
qed

subsection \<open>Export loops\<close>

lemma copyPages_single:
  "copyPages src [i] = (if i < length src then Inr [src ! i]
     else Inl (Error ''Cannot read properties of undefined (reading 'node')''))"
  by (simp add: copyPages_def)

lemma mergeLoop_ok:
  assumes "\<forall>p\<in>set ps. load env (bytes (pdfBytes p)) = Inr (src p)
      \<and> pageIndex p < length (src p) \<and> rotation p mod 90 = 0"
  shows "mergeLoop env ps acc =
    Inr (acc @ map (\<lambda>p. if rotation p > 0 then PdfPage (content (src p ! pageIndex p)) (rotation p)
                        else src p ! pageIndex p) ps)"
  using assms
proof (induction ps arbitrary: acc)
  case Nil
  then show ?case by simp
next
  case (Cons p ps)
  then show ?case
    by (simp add: copyPages_single setRotation_def addPage_def)
qed

lemma pagesToExport_begin [simp]:
  "pagesToExport (w\<lparr>isProcessing := a, loadingVisible := b\<rparr>) = pagesToExport w"
  by (simp add: pagesToExport_def)

lemma mergeAndExport_failure:
  assumes "pages w \<noteq> []" "mergeAssemble env (pagesToExport w) = Inl e"
  shows "mergeAndExport env w = w\<lparr>isProcessing := False, loadingVisible := False,
     toasts := toasts w @ [(''Error merging PDF: '' @ message e, ''error'')]\<rparr>"
  using assms
  by (simp add: mergeAndExport_def mergeAndExport_begin_def mergeAndExport_try_def
      mergeAndExport_catch_def finallyBlock_def showToast_def hideLoading_def showLoading_def)

lemma mergeAndExport_success:
  assumes "pages w \<noteq> []" "mergeAssemble env (pagesToExport w) = Inr bs"
  shows "mergeAndExport env w = w\<lparr>isProcessing := False, loadingVisible := False,
     downloads := downloads w @ [(bs, currentFilename w @ ''.pdf'')],
     toasts := toasts w @ [(''Exported '' @ showNat (length (pagesToExport w)) @ '' pages as ''
        @ [CHR 0x22] @ currentFilename w @ ''.pdf'' @ [CHR 0x22], ''success'')]\<rparr>"
  using assms
  by (simp add: mergeAndExport_def mergeAndExport_begin_def mergeAndExport_try_def
      mergeAndExport_catch_def finallyBlock_def showToast_def hideLoading_def showLoading_def
      downloadBlob_def Let_def)

lemma splitLoop_prefix:
  assumes "n \<le> length ps" "\<forall>m<n. splitOne env (ps ! m) = Inr (out m)"
  shows "splitLoop env ps i w =
     splitLoop env (drop n ps) (i + n)
       (w\<lparr>downloads := downloads w
            @ map (\<lambda>m. (out m, ''page_'' @ showNat (i + m + 1) @ ''.pdf'')) [0..<n]\<rparr>)"
  using assms
proof (induction n arbitrary: ps i w out)
  case 0
  then show ?case by simp
next
  case (Suc n)
  then obtain p rest where ps: "ps = p # rest"
    by (cases ps) auto
  from Suc.prems ps have p: "splitOne env p = Inr (out 0)"
    by auto
  from Suc.prems ps have rest: "n \<le> length rest" "\<forall>m<n. splitOne env (rest ! m) = Inr (out (Suc m))"
    by auto
  show ?case
    unfolding ps
    by (simp add: p Suc.IH [OF rest] downloadBlob_def map_upt_Suc del: upt_Suc)
qed

lemma splitSelected_run:
  fixes w :: app
  defines "sel \<equiv> filter (\<lambda>p. pageId p \<in> set (selectedIds w)) (pages w)"
  assumes "selectedIds w \<noteq> []"
    and "n \<le> length sel" and "\<forall>m<n. splitOne env (sel ! m) = Inr (out m)"
    and "n = length sel \<and> r = None \<or> n < length sel \<and> splitOne env (sel ! n) = Inl e \<and> r = Some e"
  shows "splitSelected env w = w\<lparr>isProcessing := False, loadingVisible := False,
      downloads := downloads w
         @ map (\<lambda>m. (out m, ''page_'' @ showNat (m + 1) @ ''.pdf'')) [0..<n],
      toasts := toasts w @ [case r of
          None \<Rightarrow> (''Split '' @ showNat (length sel) @ '' page(s) into separate PDFs'', ''success'')
        | Some e \<Rightarrow> (''Error splitting PDF: '' @ message e, ''error'')]\<rparr>"
proof -
  let ?w1 = "w\<lparr>isProcessing := True, loadingVisible := True\<rparr>"
  let ?w2 = "?w1\<lparr>downloads := downloads ?w1
         @ map (\<lambda>m. (out m, ''page_'' @ showNat (0 + m + 1) @ ''.pdf'')) [0..<n]\<rparr>"
  have pre: "splitLoop env sel 0 ?w1 = splitLoop env (drop n sel) (0 + n) ?w2"
    using assms(3,4) by (rule splitLoop_prefix)
  have fin: "splitLoop env (drop n sel) (0 + n) ?w2 = (?w2, r)"
  proof (cases "n = length sel")
    case True
    with assms(5) show ?thesis by auto
  next
    case False
    with assms(5) have n: "n < length sel" "splitOne env (sel ! n) = Inl e" "r = Some e"
      by auto
    from n(1) have "drop n sel = sel ! n # drop (Suc n) sel"
      by (simp add: Cons_nth_drop_Suc)
    with n show ?thesis by simp
  qed
  show ?thesis
    using assms(2) pre fin
    by (cases r)
      (simp_all add: splitSelected_def splitSelected_begin_def splitSelected_try_def sel_def
        setHas_def finallyBlock_def showToast_def hideLoading_def showLoading_def Let_def)
qed

lemma twoSelected_planned:
  "pagesToExport twoSelected = pages twoSelected"
  "pages twoSelected = [pageP1, pageP2]"
  "selectedIds twoSelected \<noteq> []" "downloads twoSelected = []" "toasts twoSelected = []"
  "currentFilename twoSelected = ''merged''"
  by (simp_all add: pagesToExport_def twoSelected_def initial_def setHas_def mkPage_def
      pageP1_def pageP2_def)

lemma twoSelected_sel:
  "filter (\<lambda>p. pageId p \<in> set (selectedIds twoSelected)) (pages twoSelected) =
     [pageP1, pageP2]"
  by (simp add: twoSelected_def initial_def mkPage_def pageP1_def pageP2_def)

lemma splitOne_p1: "splitOne env0 pageP1 = Inr [0]"
  by (simp add: splitOne_def env0_def mkPage_def pageP1_def docA_def copyPages_single
      addPage_def)

lemma splitOne_p2:
  "splitOne env0 pageP2 = Inr [2]"
  by (simp add: splitOne_def env0_def mkPage_def pageP2_def docA_def copyPages_single
      addPage_def setRotation_def)

lemma splitOne_fail_p1: "splitOne envFail pageP1 = Inr [0]"
  by (simp add: splitOne_def envFail_def env0_def mkPage_def pageP1_def docA_def
      copyPages_single addPage_def)

lemma splitOne_fail_p2: "splitOne envFail pageP2 = Inl (Error ''cannot serialize'')"
  by (simp add: splitOne_def envFail_def env0_def mkPage_def pageP2_def docA_def
      copyPages_single addPage_def setRotation_def)

subsection \<open>Merge emits one document\<close>

text \<open>
  Claim C1. Take a merge over a collection that is not empty, in which every planned page
  can be copied (its source decodes to \<open>src p\<close>, which has the page index, and its
  rotation is a multiple of 90) and the document built serialises to \<open>bs\<close>. Then the
  download sink receives exactly one more file, \<open>bs\<close>, under the current filename. The
  document serialised holds, in the order of the planned pages, the copy of each page's
  source page, with the rotation entry overwritten by the page's rotation when that is
  positive and left as the source has it otherwise; it is saved with object streams on
  and without a default page. The planned pages are the pages whose id is selected, in
  collection order, when the selection is not empty, and the whole collection otherwise.
  The guard is clear afterwards.
\<close>

theorem mergeAndExport_emits_one:
  assumes "pages w \<noteq> []"
    and "\<forall>p\<in>set (pagesToExport w). load env (bytes (pdfBytes p)) = Inr (src p)
          \<and> pageIndex p < length (src p) \<and> rotation p mod 90 = 0"
    and "save env
           (map (\<lambda>p. if rotation p > 0 then PdfPage (content (src p ! pageIndex p)) (rotation p)
                      else src p ! pageIndex p) (pagesToExport w))
           \<lparr>useObjectStreams = True, addDefaultPage = False\<rparr> = Inr bs"
  shows "downloads (mergeAndExport env w) = downloads w @ [(bs, currentFilename w @ ''.pdf'')]
    \<and> pagesToExport w =
        (if selectedIds w = [] then pages w
         else filter (\<lambda>p. pageId p \<in> set (selectedIds w)) (pages w))
    \<and> \<not> isProcessing (mergeAndExport env w)"
proof -
  from mergeLoop_ok [OF assms(2), of "[]"] assms(3)
  have "mergeAssemble env (pagesToExport w) = Inr bs"
    by (simp add: mergeAssemble_def)
  from mergeAndExport_success [OF assms(1) this] show ?thesis
    by (simp add: pagesToExport_def setHas_def)
qed

theorem mergeAndExport_emits_one_witness:
  "pages twoSelected \<noteq> []
   \<and> downloads (mergeAndExport env0 twoSelected) = [([0, 2], ''merged.pdf'')]"
proof -
  have h1: "pages twoSelected \<noteq> []"
    by (simp add: twoSelected_planned)
  have h2: "\<forall>p\<in>set (pagesToExport twoSelected). load env0 (bytes (pdfBytes p)) = Inr docA
          \<and> pageIndex p < length docA \<and> rotation p mod 90 = 0"
    by (simp add: twoSelected_planned mkPage_def pageP1_def pageP2_def env0_def docA_def)
  have h3: "save env0
      (map (\<lambda>p. if rotation p > 0 then PdfPage (content (docA ! pageIndex p)) (rotation p)
                 else docA ! pageIndex p) (pagesToExport twoSelected))
      \<lparr>useObjectStreams = True, addDefaultPage = False\<rparr> = Inr [0, 2]"
    by (simp add: twoSelected_planned mkPage_def pageP1_def pageP2_def env0_def docA_def)
  from mergeAndExport_emits_one [OF h1 h2 h3] h1 show ?thesis
    by (simp add: twoSelected_planned)
qed

subsection \<open>A failed export\<close>

text \<open>
  A planned page throws in the loop when its source does not decode, when its index is
  past the end of the source, or when its rotation is not a multiple of 90; otherwise
  one round of the split comes down to the save of the one copied page.
\<close>

lemma mergeLoop_throws:
  assumes "\<exists>q\<in>set ps. case load env (bytes (pdfBytes q)) of
      Inl _ \<Rightarrow> True
    | Inr s \<Rightarrow> length s \<le> pageIndex q \<or> rotation q mod 90 \<noteq> 0"
  shows "isl (mergeLoop env ps acc)"
  using assms
proof (induction ps arbitrary: acc)
  case Nil
  then show ?case by simp
next
  case (Cons p ps)
  show ?case
  proof (cases "load env (bytes (pdfBytes p))")
    case (Inl e)
    then show ?thesis by simp
  next
    case (Inr s)
    show ?thesis
    proof (cases "length s \<le> pageIndex p \<or> rotation p mod 90 \<noteq> 0")
      case True
      then have "length s \<le> pageIndex p \<or> (pageIndex p < length s \<and> rotation p mod 90 \<noteq> 0)"
        by auto
      then show ?thesis
      proof
        assume "length s \<le> pageIndex p"
        with Inr show ?thesis by (simp add: copyPages_single)
      next
        assume a: "pageIndex p < length s \<and> rotation p mod 90 \<noteq> 0"
        then have "rotation p > 0" by (intro gr0I notI) simp
        with a Inr show ?thesis by (simp add: copyPages_single setRotation_def)
      qed
    next
      case False
      with Inr Cons.prems have "\<exists>q\<in>set ps. case load env (bytes (pdfBytes q)) of
          Inl _ \<Rightarrow> True
        | Inr s \<Rightarrow> length s \<le> pageIndex q \<or> rotation q mod 90 \<noteq> 0"
        by auto
      from Cons.IH [OF this] False Inr show ?thesis
        by (simp add: copyPages_single setRotation_def)
    qed
  qed
qed

lemma splitOne_throws:
  assumes "case load env (bytes (pdfBytes q)) of
      Inl _ \<Rightarrow> True
    | Inr s \<Rightarrow> length s \<le> pageIndex q \<or> rotation q mod 90 \<noteq> 0"
  shows "isl (splitOne env q)"
proof (cases "load env (bytes (pdfBytes q))")
  case (Inl e)
  then show ?thesis by (simp add: splitOne_def)
next
  case (Inr s)
  with assms have "length s \<le> pageIndex q \<or> (pageIndex q < length s \<and> rotation q mod 90 \<noteq> 0)"
    by auto
  then show ?thesis
  proof
    assume "length s \<le> pageIndex q"
    with Inr show ?thesis by (simp add: splitOne_def copyPages_single)
  next
    assume a: "pageIndex q < length s \<and> rotation q mod 90 \<noteq> 0"
    then have "rotation q > 0" by (intro gr0I notI) simp
    with a Inr show ?thesis by (simp add: splitOne_def copyPages_single setRotation_def)
  qed
qed

lemma splitOne_copies:
  assumes "load env (bytes (pdfBytes q)) = Inr s" "pageIndex q < length s" "rotation q mod 90 = 0"
  shows "splitOne env q =
    save env [if rotation q > 0 then PdfPage (content (s ! pageIndex q)) (rotation q)
              else s ! pageIndex q]
      \<lparr>useObjectStreams = True, addDefaultPage = False\<rparr>"
  using assms by (simp add: splitOne_def copyPages_single setRotation_def addPage_def)

lemma mergeAndExport_aborts:
  assumes "pages w \<noteq> []
    \<and> ((\<exists>q\<in>set (pagesToExport w).
            case load env (bytes (pdfBytes q)) of
              Inl _ \<Rightarrow> True
            | Inr s \<Rightarrow> length s \<le> pageIndex q \<or> rotation q mod 90 \<noteq> 0)
       \<or> (\<forall>q\<in>set (pagesToExport w). load env (bytes (pdfBytes q)) = Inr (src q)
              \<and> pageIndex q < length (src q) \<and> rotation q mod 90 = 0)
           \<and> isl (save env
                 (map (\<lambda>q. if rotation q > 0
                            then PdfPage (content (src q ! pageIndex q)) (rotation q)
                            else src q ! pageIndex q) (pagesToExport w))
                 \<lparr>useObjectStreams = True, addDefaultPage = False\<rparr>))"
  shows "\<exists>e. mergeAndExport env w = w\<lparr>isProcessing := False, loadingVisible := False,
              toasts := toasts w @ [(''Error merging PDF: '' @ message e, ''error'')]\<rparr>"
proof -
  from assms have ne: "pages w \<noteq> []" by (rule conjunct1)
  from assms have c: "(\<exists>q\<in>set (pagesToExport w).
            case load env (bytes (pdfBytes q)) of
              Inl _ \<Rightarrow> True
            | Inr s \<Rightarrow> length s \<le> pageIndex q \<or> rotation q mod 90 \<noteq> 0)
       \<or> (\<forall>q\<in>set (pagesToExport w). load env (bytes (pdfBytes q)) = Inr (src q)
              \<and> pageIndex q < length (src q) \<and> rotation q mod 90 = 0)
           \<and> isl (save env
                 (map (\<lambda>q. if rotation q > 0
                            then PdfPage (content (src q ! pageIndex q)) (rotation q)
                            else src q ! pageIndex q) (pagesToExport w))
                 \<lparr>useObjectStreams = True, addDefaultPage = False\<rparr>)"
    by (rule conjunct2)
  have "isl (mergeAssemble env (pagesToExport w))"
    using c
  proof
    assume "\<exists>q\<in>set (pagesToExport w).
            case load env (bytes (pdfBytes q)) of
              Inl _ \<Rightarrow> True
            | Inr s \<Rightarrow> length s \<le> pageIndex q \<or> rotation q mod 90 \<noteq> 0"
    then have "isl (mergeLoop env (pagesToExport w) [])"
      by (rule mergeLoop_throws)
    then show ?thesis
      by (cases "mergeLoop env (pagesToExport w) []") (simp_all add: mergeAssemble_def)
  next
    assume a: "(\<forall>q\<in>set (pagesToExport w). load env (bytes (pdfBytes q)) = Inr (src q)
              \<and> pageIndex q < length (src q) \<and> rotation q mod 90 = 0)
           \<and> isl (save env
                 (map (\<lambda>q. if rotation q > 0
                            then PdfPage (content (src q ! pageIndex q)) (rotation q)
                            else src q ! pageIndex q) (pagesToExport w))
                 \<lparr>useObjectStreams = True, addDefaultPage = False\<rparr>)"
    from a [THEN conjunct1] have
      "mergeLoop env (pagesToExport w) [] =
        Inr ([] @ map (\<lambda>p. if rotation p > 0
                            then PdfPage (content (src p ! pageIndex p)) (rotation p)
                            else src p ! pageIndex p) (pagesToExport w))"
      by (rule mergeLoop_ok)
    with a [THEN conjunct2] show ?thesis
      by (simp add: mergeAssemble_def)
  qed
  then obtain e where "mergeAssemble env (pagesToExport w) = Inl e"
    by (cases "mergeAssemble env (pagesToExport w)") simp_all
  then have "mergeAndExport env w = w\<lparr>isProcessing := False, loadingVisible := False,
              toasts := toasts w @ [(''Error merging PDF: '' @ message e, ''error'')]\<rparr>"
    by (rule mergeAndExport_failure [OF ne])
  then show ?thesis
    by (rule exI [of _ e])
qed

lemma splitSelected_aborts:
  fixes w :: app
  defines "sel \<equiv> filter (\<lambda>p. pageId p \<in> set (selectedIds w)) (pages w)"
  assumes ne: "selectedIds w \<noteq> []" and n: "n < length sel"
    and ok: "\<forall>m<n. splitOne env (sel ! m) = Inr (out m)"
    and bad: "isl (splitOne env (sel ! n))"
  shows "\<exists>e. splitSelected env w = w\<lparr>isProcessing := False, loadingVisible := False,
              downloads := downloads w
                @ map (\<lambda>m. (out m, ''page_'' @ showNat (m + 1) @ ''.pdf'')) [0..<n],
              toasts := toasts w @ [(''Error splitting PDF: '' @ message e, ''error'')]\<rparr>"
proof -
  from bad obtain e where e: "splitOne env (sel ! n) = Inl e"
    by (cases "splitOne env (sel ! n)") simp_all
  from n have le: "n \<le> length sel" by simp
  from n e have r: "n = length sel \<and> Some e = None
      \<or> n < length sel \<and> splitOne env (sel ! n) = Inl e \<and> Some e = Some e"
    by simp
  have "splitSelected env w = w\<lparr>isProcessing := False, loadingVisible := False,
      downloads := downloads w
        @ map (\<lambda>m. (out m, ''page_'' @ showNat (m + 1) @ ''.pdf'')) [0..<n],
      toasts := toasts w @ [case Some e of
          None \<Rightarrow> (''Split '' @ showNat (length (filter (\<lambda>p. pageId p \<in> set (selectedIds w)) (pages w)))
             @ '' page(s) into separate PDFs'', ''success'')
        | Some e \<Rightarrow> (''Error splitting PDF: '' @ message e, ''error'')]\<rparr>"
    by (rule splitSelected_run [OF ne le [unfolded sel_def] ok [unfolded sel_def]
          r [unfolded sel_def]])
  then have "splitSelected env w = w\<lparr>isProcessing := False, loadingVisible := False,
      downloads := downloads w
        @ map (\<lambda>m. (out m, ''page_'' @ showNat (m + 1) @ ''.pdf'')) [0..<n],
      toasts := toasts w @ [(''Error splitting PDF: '' @ message e, ''error'')]\<rparr>"
    by (simp only: option.case)
  then show ?thesis
    by (rule exI [of _ e])
qed

lemma example_pages:
  "load env0 (bytes (pdfBytes pageP1)) = Inr docA" "pageIndex pageP1 = 0" "rotation pageP1 = 0"
  "load env0 (bytes (pdfBytes pageP2)) = Inr docA" "pageIndex pageP2 = 1"
  "rotation pageP2 = 180"
  "load env0 (bytes (pdfBytes pageX)) = Inl (Error ''Failed to parse PDF document'')"
  "load env0 (bytes (pdfBytes pageY)) = Inr docA" "pageIndex pageY = 7" "rotation pageY = 0"
  "load envFail = load env0"
  "length docA = 2" "docA ! 0 = PdfPage ''A1'' 0" "docA ! Suc 0 = PdfPage ''A2'' 90"
  by (simp_all add: env0_def envFail_def docA_def pageP1_def pageP2_def pageX_def pageY_def
      mkPage_def)

lemma example_saves:
  "save env0 [PdfPage ''A1'' 0] \<lparr>useObjectStreams = True, addDefaultPage = False\<rparr> = Inr [0]"
  "save envFail [PdfPage ''A1'' 0] \<lparr>useObjectStreams = True, addDefaultPage = False\<rparr>
     = Inr [0]"
  "save envFail [PdfPage ''A2'' 180] \<lparr>useObjectStreams = True, addDefaultPage = False\<rparr>
     = Inl (Error ''cannot serialize'')"
  "save envFail [PdfPage ''A1'' 0, PdfPage ''A2'' 180]
     \<lparr>useObjectStreams = True, addDefaultPage = False\<rparr> = Inl (Error ''cannot serialize'')"
  by (simp_all add: env0_def envFail_def)

lemma example_states:
  "pagesToExport withUnreadable = [pageP1, pageX]"
  "filter (\<lambda>p. pageId p \<in> set (selectedIds withUnreadable)) (pages withUnreadable)
     = [pageP1, pageX]"
  "pagesToExport withOutOfRange = [pageP1, pageY]"
  "pages withUnreadable \<noteq> []" "pages withOutOfRange \<noteq> []"
  "selectedIds withUnreadable \<noteq> []"
  "downloads withUnreadable = []" "toasts withUnreadable = []"
  "downloads withOutOfRange = []" "toasts withOutOfRange = []"
  by (simp_all add: pagesToExport_def setHas_def withUnreadable_def withOutOfRange_def
      initial_def pageP1_def pageX_def pageY_def mkPage_def)

text \<open>
  Claim C4, as stated, fails for a split. Each round of \<^verbatim>\<open>splitSelected\<close> hands its
  document to the download sink before the next round starts, so a split that fails in
  its second round (here on a serialisation error) has emitted the document of the first
  page: the very file, under the very name, that the split emits first when nothing
  fails.
\<close>

theorem split_emits_before_failure_counterexample:
  "isl (save envFail [PdfPage ''A2'' 180] \<lparr>useObjectStreams = True, addDefaultPage = False\<rparr>)
   \<and> toasts (splitSelected envFail twoSelected)
       = [(''Error splitting PDF: cannot serialize'', ''error'')]
   \<and> downloads (splitSelected envFail twoSelected) = [([0], ''page_1.pdf'')]
   \<and> downloads (splitSelected envFail twoSelected)
       = take 1 (downloads (splitSelected env0 twoSelected))"
proof -
  let ?sel = "filter (\<lambda>p. pageId p \<in> set (selectedIds twoSelected)) (pages twoSelected)"
  have ne: "selectedIds twoSelected \<noteq> []"
    by (simp add: twoSelected_planned)
  have f: "splitSelected envFail twoSelected = twoSelected\<lparr>isProcessing := False,
      loadingVisible := False,
      downloads := downloads twoSelected
         @ map (\<lambda>m. ([0], ''page_'' @ showNat (m + 1) @ ''.pdf'')) [0..<1],
      toasts := toasts twoSelected @ [case Some (Error ''cannot serialize'') of
          None \<Rightarrow> (''Split '' @ showNat (length ?sel) @ '' page(s) into separate PDFs'',
            ''success'')
        | Some e \<Rightarrow> (''Error splitting PDF: '' @ message e, ''error'')]\<rparr>"
    by (rule splitSelected_run [of twoSelected 1 envFail "\<lambda>m. [0]" "Some (Error ''cannot serialize'')"
          "Error ''cannot serialize''", OF ne])
      (simp_all add: twoSelected_sel splitOne_fail_p1 splitOne_fail_p2)
  have g: "splitSelected env0 twoSelected = twoSelected\<lparr>isProcessing := False,
      loadingVisible := False,
      downloads := downloads twoSelected
         @ map (\<lambda>m. (if m = 0 then [0] else [2], ''page_'' @ showNat (m + 1) @ ''.pdf''))
             [0..<2],
      toasts := toasts twoSelected @ [case None of
          None \<Rightarrow> (''Split '' @ showNat (length ?sel) @ '' page(s) into separate PDFs'',
            ''success'')
        | Some e \<Rightarrow> (''Error splitting PDF: '' @ message e, ''error'')]\<rparr>"
    by (rule splitSelected_run [of twoSelected 2 env0 "\<lambda>m. if m = 0 then [0] else [2]" None
          undefined, OF ne])
      (simp_all add: twoSelected_sel splitOne_p1 splitOne_p2 less_Suc_eq numeral_2_eq_2)
  have u: "[0..<2] = [0, Suc 0]" "[0..<1] = [0]"
    by (simp_all add: numeral_2_eq_2)
  show ?thesis
    unfolding f g
    by (simp add: twoSelected_planned u showNat.simps example_saves)
qed

text \<open>
  Claim C4, amended. Let a planned page throw when its source does not decode, its index
  is past the end of its source or its rotation is not a multiple of 90, and let it copy
  otherwise (its source decodes to \<open>src q\<close>). When some planned page of a merge throws,
  or all copy and the save of the document built throws, the state after the merge is
  the state before with the guard clear, the overlay hidden and one more toast, an
  error: nothing reaches the download sink and no success is reported. When the first
  \<open>n\<close> selected pages of a split copy and save (to \<open>out m\<close>) and the round of the next
  page throws, in the load, the copy, the rotation or the save, the sink has received
  exactly those \<open>n\<close> saved documents, as \<open>page_1.pdf\<close> to \<open>page_n.pdf\<close>, and nothing of
  the failing page or of the pages after it; the one toast added is an error, never the
  success, and the guard is clear.
\<close>

theorem export_failure_aborts:
  fixes w :: app and env :: env and src :: "page \<Rightarrow> pdfdoc"
  defines "opts \<equiv> \<lparr>useObjectStreams = True, addDefaultPage = False\<rparr>"
  defines "sel \<equiv> filter (\<lambda>p. pageId p \<in> set (selectedIds w)) (pages w)"
  defines "copies \<equiv> \<lambda>q. load env (bytes (pdfBytes q)) = Inr (src q)
      \<and> pageIndex q < length (src q) \<and> rotation q mod 90 = 0"
  defines "copy \<equiv> \<lambda>q. if rotation q > 0
      then PdfPage (content (src q ! pageIndex q)) (rotation q) else src q ! pageIndex q"
  defines "throws \<equiv> \<lambda>q. case load env (bytes (pdfBytes q)) of
      Inl _ \<Rightarrow> True
    | Inr s \<Rightarrow> length s \<le> pageIndex q \<or> rotation q mod 90 \<noteq> 0"
  shows "(pages w \<noteq> []
        \<and> ((\<exists>q\<in>set (pagesToExport w). throws q)
           \<or> (\<forall>q\<in>set (pagesToExport w). copies q)
               \<and> isl (save env (map copy (pagesToExport w)) opts)) \<longrightarrow>
          (\<exists>e. mergeAndExport env w = w\<lparr>isProcessing := False, loadingVisible := False,
              toasts := toasts w @ [(''Error merging PDF: '' @ message e, ''error'')]\<rparr>))
    \<and> (selectedIds w \<noteq> [] \<and> n < length sel
        \<and> (\<forall>m<n. copies (sel ! m) \<and> save env [copy (sel ! m)] opts = Inr (out m))
        \<and> (throws (sel ! n) \<or> copies (sel ! n) \<and> isl (save env [copy (sel ! n)] opts)) \<longrightarrow>
          (\<exists>e. splitSelected env w = w\<lparr>isProcessing := False, loadingVisible := False,
              downloads := downloads w
                @ map (\<lambda>m. (out m, ''page_'' @ showNat (m + 1) @ ''.pdf'')) [0..<n],
              toasts := toasts w @ [(''Error splitting PDF: '' @ message e, ''error'')]\<rparr>))"
proof (rule conjI)
  show "pages w \<noteq> []
        \<and> ((\<exists>q\<in>set (pagesToExport w). throws q)
           \<or> (\<forall>q\<in>set (pagesToExport w). copies q)
               \<and> isl (save env (map copy (pagesToExport w)) opts)) \<longrightarrow>
          (\<exists>e. mergeAndExport env w = w\<lparr>isProcessing := False, loadingVisible := False,
              toasts := toasts w @ [(''Error merging PDF: '' @ message e, ''error'')]\<rparr>)"
    unfolding throws_def copies_def copy_def opts_def
    by (rule impI) (rule mergeAndExport_aborts)
next
  show "selectedIds w \<noteq> [] \<and> n < length sel
        \<and> (\<forall>m<n. copies (sel ! m) \<and> save env [copy (sel ! m)] opts = Inr (out m))
        \<and> (throws (sel ! n) \<or> copies (sel ! n) \<and> isl (save env [copy (sel ! n)] opts)) \<longrightarrow>
          (\<exists>e. splitSelected env w = w\<lparr>isProcessing := False, loadingVisible := False,
              downloads := downloads w
                @ map (\<lambda>m. (out m, ''page_'' @ showNat (m + 1) @ ''.pdf'')) [0..<n],
              toasts := toasts w @ [(''Error splitting PDF: '' @ message e, ''error'')]\<rparr>)"
  proof (intro impI, elim conjE)
    assume ne: "selectedIds w \<noteq> []" and n: "n < length sel"
      and pre: "\<forall>m<n. copies (sel ! m) \<and> save env [copy (sel ! m)] opts = Inr (out m)"
      and c: "throws (sel ! n) \<or> copies (sel ! n) \<and> isl (save env [copy (sel ! n)] opts)"
    have ok: "\<forall>m<n. splitOne env (sel ! m) = Inr (out m)"
    proof (intro allI impI)
      fix m assume "m < n"
      with pre have "copies (sel ! m)" "save env [copy (sel ! m)] opts = Inr (out m)"
        by simp_all
      then show "splitOne env (sel ! m) = Inr (out m)"
        unfolding copies_def copy_def opts_def by (simp add: splitOne_copies)
    qed
    have bad: "isl (splitOne env (sel ! n))"
      using c
    proof
      assume "throws (sel ! n)"
      then show ?thesis unfolding throws_def by (rule splitOne_throws)
    next
      assume "copies (sel ! n) \<and> isl (save env [copy (sel ! n)] opts)"
      then show ?thesis
        unfolding copies_def copy_def opts_def by (simp add: splitOne_copies)
    qed
    show "\<exists>e. splitSelected env w = w\<lparr>isProcessing := False, loadingVisible := False,
              downloads := downloads w
                @ map (\<lambda>m. (out m, ''page_'' @ showNat (m + 1) @ ''.pdf'')) [0..<n],
              toasts := toasts w @ [(''Error splitting PDF: '' @ message e, ''error'')]\<rparr>"
      by (rule splitSelected_aborts [OF ne n [unfolded sel_def] ok [unfolded sel_def]
            bad [unfolded sel_def]])
  qed
qed

theorem export_failure_aborts_witness:
  "pages withUnreadable \<noteq> [] \<and> isl (load env0 (bytes (pdfBytes pageX)))
   \<and> downloads (mergeAndExport env0 withUnreadable) = []
   \<and> map snd (toasts (mergeAndExport env0 withUnreadable)) = [''error'']
   \<and> downloads (splitSelected env0 withUnreadable) = [([0], ''page_1.pdf'')]
   \<and> map snd (toasts (splitSelected env0 withUnreadable)) = [''error'']
   \<and> length docA \<le> pageIndex pageY
   \<and> downloads (mergeAndExport env0 withOutOfRange) = []
   \<and> map snd (toasts (mergeAndExport env0 withOutOfRange)) = [''error'']
   \<and> downloads (mergeAndExport envFail twoSelected) = []
   \<and> map snd (toasts (mergeAndExport envFail twoSelected)) = [''error'']"
proof -
  note A = export_failure_aborts [of withUnreadable env0 "\<lambda>_. docA" 1 "\<lambda>_. [0]"]
  note B = export_failure_aborts [of withOutOfRange env0 "\<lambda>_. docA" 0 "\<lambda>_. [0]"]
  note C = export_failure_aborts [of twoSelected envFail "\<lambda>_. docA" 0 "\<lambda>_. [0]"]
  from A [THEN conjunct1] obtain e1
    where m1: "mergeAndExport env0 withUnreadable = withUnreadable\<lparr>isProcessing := False,
      loadingVisible := False,
      toasts := toasts withUnreadable @ [(''Error merging PDF: '' @ message e1, ''error'')]\<rparr>"
    by (auto simp: example_states example_pages)
  from A [THEN conjunct2] obtain e2
    where s1: "splitSelected env0 withUnreadable = withUnreadable\<lparr>isProcessing := False,
      loadingVisible := False,
      downloads := downloads withUnreadable
         @ map (\<lambda>m. ([0], ''page_'' @ showNat (m + 1) @ ''.pdf'')) [0..<1],
      toasts := toasts withUnreadable
         @ [(''Error splitting PDF: '' @ message e2, ''error'')]\<rparr>"
    by (auto simp: example_states example_pages example_saves)
  from B [THEN conjunct1] obtain e3
    where m2: "mergeAndExport env0 withOutOfRange = withOutOfRange\<lparr>isProcessing := False,
      loadingVisible := False,
      toasts := toasts withOutOfRange @ [(''Error merging PDF: '' @ message e3, ''error'')]\<rparr>"
    by (auto simp: example_states example_pages)
  from C [THEN conjunct1] obtain e4
    where m3: "mergeAndExport envFail twoSelected = twoSelected\<lparr>isProcessing := False,
      loadingVisible := False,
      toasts := toasts twoSelected @ [(''Error merging PDF: '' @ message e4, ''error'')]\<rparr>"
    by (auto simp: twoSelected_planned example_pages example_saves)
  show ?thesis
    unfolding m1 s1 m2 m3
    by (simp add: example_states example_pages twoSelected_planned showNat.simps)
qed

subsection \<open>Names of split documents\<close>

text \<open>
  Claim C10. In a split over a selection that is not empty, let the rounds of the first
  \<open>n\<close> selected pages (in collection order) succeed, with saved bytes \<open>out m\<close>, and let
  \<open>n\<close> be the number of selected pages or the round of page \<open>n\<close> throw. Then the files
  handed to the download sink are \<open>out 0\<close>, ..., \<open>out (n - 1)\<close>, the \<open>m\<close>-th (from 0)
  under the name \<open>page_(m + 1).pdf\<close>. The names are a function of the position in the
  run alone, and the current filename and the filename template have no effect on what
  is emitted.
\<close>

theorem splitSelected_names:
  fixes w :: app
  defines "sel \<equiv> filter (\<lambda>p. pageId p \<in> set (selectedIds w)) (pages w)"
  assumes "selectedIds w \<noteq> []"
    and "n \<le> length sel" and "\<forall>m<n. splitOne env (sel ! m) = Inr (out m)"
    and "n = length sel \<or> (\<exists>e. splitOne env (sel ! n) = Inl e)"
  shows "downloads (splitSelected env w) =
      downloads w @ map (\<lambda>m. (out m, ''page_'' @ showNat (m + 1) @ ''.pdf'')) [0..<n]
    \<and> map snd (downloads (splitSelected env w)) =
      map snd (downloads w) @ map (\<lambda>m. ''page_'' @ showNat (m + 1) @ ''.pdf'') [0..<n]
    \<and> downloads (splitSelected env (w\<lparr>currentFilename := c, filenameTemplate := t\<rparr>)) =
      downloads (splitSelected env w)"
proof -
  from assms(5) obtain r e
    where r: "n = length sel \<and> r = None
        \<or> n < length sel \<and> splitOne env (sel ! n) = Inl e \<and> r = Some e"
    using assms(3) by (cases "n = length sel") auto
  have 1: "downloads (splitSelected env w) =
      downloads w @ map (\<lambda>m. (out m, ''page_'' @ showNat (m + 1) @ ''.pdf'')) [0..<n]"
    using splitSelected_run [OF assms(2) assms(3,4) [unfolded sel_def] r [unfolded sel_def]]
    by simp
  let ?w' = "w\<lparr>currentFilename := c, filenameTemplate := t\<rparr>"
  have s: "filter (\<lambda>p. pageId p \<in> set (selectedIds ?w')) (pages ?w') = sel"
    by (simp add: sel_def)
  have 2: "downloads (splitSelected env ?w') =
      downloads ?w' @ map (\<lambda>m. (out m, ''page_'' @ showNat (m + 1) @ ''.pdf'')) [0..<n]"
    using splitSelected_run [of ?w' n env out r e] assms(2,3,4) r
    unfolding s by simp
  from 1 2 show ?thesis
    by (simp add: comp_def)
qed

theorem splitSelected_names_witness:
  "selectedIds twoSelected \<noteq> []
   \<and> downloads (splitSelected env0 twoSelected) = [([0], ''page_1.pdf''), ([2], ''page_2.pdf'')]"
proof -
  let ?sel = "filter (\<lambda>p. pageId p \<in> set (selectedIds twoSelected)) (pages twoSelected)"
  let ?out = "\<lambda>m::nat. if m = 0 then [0::byte] else [2]"
  have h1: "selectedIds twoSelected \<noteq> []"
    by (simp add: twoSelected_planned)
  have h2: "2 \<le> length ?sel"
    unfolding twoSelected_sel by simp
  have h3: "\<forall>m<2. splitOne env0 (?sel ! m) = Inr (?out m)"
    unfolding twoSelected_sel
    by (simp add: splitOne_p1 splitOne_p2 less_Suc_eq numeral_2_eq_2)
  have h4: "2 = length ?sel \<or> (\<exists>e. splitOne env0 (?sel ! 2) = Inl e)"
    unfolding twoSelected_sel by simp
  have u: "[0..<2] = [0, Suc 0]"
    by (simp add: numeral_2_eq_2)
  from splitSelected_names [OF h1 h2 h3 h4] h1 show ?thesis
    by (simp add: twoSelected_planned u showNat.simps)
qed

subsection \<open>Ingestion\<close>

lemma processPages_pages:
  "\<exists>new. pages (fst (fst (processPages env f buf is (w, k)))) = pages w @ new
     \<and> length new = length (takeWhile (thumbnailOk env (bytes buf)) is)"
proof (induction "is" arbitrary: w k)
  case Nil
  then show ?case by simp
next
  case (Cons i "is")
  show ?case
  proof (cases "generateThumbnail env (bytes buf) (i + 1)")
    case (Inl e)
    then show ?thesis by (simp add: thumbnailOk_def)
  next
    case (Inr t)
    let ?pd = "\<lparr> pageId = generateId env (idCalls w), sourceFile = name f,
                pageIndex = i, originalPageNumber = i + 1, pdfBytes = buf,
                thumbnail = t, rotation = 0 \<rparr>"
    let ?w' = "w\<lparr>pages := pages w @ [?pd], idCalls := Suc (idCalls w)\<rparr>"
    from Cons.IH [of ?w' "Suc k"] obtain new
      where new: "pages (fst (fst (processPages env f buf is (?w', Suc k)))) = pages ?w' @ new"
        "length new = length (takeWhile (thumbnailOk env (bytes buf)) is)"
      by blast
    have "pages (fst (fst (processPages env f buf (i # is) (w, k)))) = pages w @ (?pd # new)"
      using Inr new(1) by (simp add: Let_def)
    moreover have "length (?pd # new) = length (takeWhile (thumbnailOk env (bytes buf)) (i # is))"
      using Inr new(2) by (simp add: thumbnailOk_def)
    ultimately show ?thesis by blast
  qed
qed

lemma processPages_err:
  "(snd (processPages env f buf is s) = None) = list_all (thumbnailOk env (bytes buf)) is"
proof (induction "is" arbitrary: s)
  case Nil
  then show ?case by simp
next
  case (Cons i "is")
  obtain w k where s: "s = (w, k)" by (cases s)
  show ?case
    unfolding s using Cons.IH
    by (cases "generateThumbnail env (bytes buf) (i + 1)") (simp_all add: thumbnailOk_def Let_def)
qed

lemma takeWhile_all: "list_all P xs \<Longrightarrow> takeWhile P xs = xs"
  by (induction xs) auto

lemma takeWhile_length_all: "length (takeWhile P xs) = length xs \<longleftrightarrow> list_all P xs"
proof
  assume "length (takeWhile P xs) = length xs"
  then have "takeWhile P xs = xs"
    by (metis append_self_conv length_0_conv length_append add_diff_cancel_left' takeWhile_dropWhile_id
        length_dropWhile_le diff_is_0_eq' add.right_neutral)
  then show "list_all P xs"
    by (metis list_all_iff set_takeWhileD)
next
  assume "list_all P xs"
  then show "length (takeWhile P xs) = length xs"
    by (simp add: takeWhile_all)
qed

lemma processEach_pages:
  "\<exists>new. pages (fst (fst (processEach env files (w, k)))) = pages w @ new
     \<and> length new = growth env files
     \<and> (snd (processEach env files (w, k)) = None) = list_all (ingestible env) files"
proof (induction files arbitrary: w k)
  case Nil
  then show ?case by (simp add: growth_def)
next
  case (Cons f fs)
  show ?case
  proof (cases "arrayBuffer f")
    case (Inl e)
    then have "\<not> ingestible env f" "rendered env f = 0"
      by (simp_all add: ingestible_def rendered_def)
    with Inl show ?thesis
      by (simp add: growth_def)
  next
    case buf: (Inr buf)
    let ?w1 = "w\<lparr>nextAddr := Suc (nextAddr w)\<rparr>"
    show ?thesis
    proof (cases "load env buf")
      case (Inl e)
      with buf have "\<not> ingestible env f" "rendered env f = 0"
        by (simp_all add: ingestible_def rendered_def)
      with buf Inl show ?thesis
        by (simp add: growth_def)
    next
      case doc: (Inr doc)
      show ?thesis
      proof (cases "getDocument env buf")
        case (Inl e)
        with buf doc have "\<not> ingestible env f" "rendered env f = 0"
          by (simp_all add: ingestible_def rendered_def)
        with buf doc Inl show ?thesis
          by (simp add: growth_def)
      next
        case js: (Inr u)
        let ?run = "processPages env f (U8 (nextAddr w) buf) [0..<length doc] (?w1, k)"
        obtain w' k' r where run: "?run = ((w', k'), r)"
          by (metis surj_pair)
        from processPages_pages [of env f "U8 (nextAddr w) buf" "[0..<length doc]" ?w1 k]
        obtain new1 where new1: "pages w' = pages w @ new1"
          "length new1 = length (takeWhile (thumbnailOk env buf) [0..<length doc])"
          unfolding run by auto
        have rend: "rendered env f = length new1"
          using buf doc js new1(2) by (simp add: rendered_def)
        have cnt: "pageCount env f = length doc"
          using buf doc by (simp add: pageCount_def)
        from processPages_err [of env f "U8 (nextAddr w) buf" "[0..<length doc]" "(?w1, k)"]
        have err: "(r = None) = list_all (thumbnailOk env buf) [0..<length doc]"
          unfolding run by simp
        have ing: "ingestible env f = (r = None)"
          using buf doc js rend cnt new1(2) err
            takeWhile_length_all [of "thumbnailOk env buf" "[0..<length doc]"]
          by (simp add: ingestible_def)
        show ?thesis
        proof (cases r)
          case None
          from Cons.IH [of w' k'] obtain new2
            where n2: "pages (fst (fst (processEach env fs (w', k')))) = pages w' @ new2
              \<and> length new2 = growth env fs
              \<and> (snd (processEach env fs (w', k')) = None) = list_all (ingestible env) fs"
            ..
          note new2 = n2 [THEN conjunct1] n2 [THEN conjunct2, THEN conjunct1]
            n2 [THEN conjunct2, THEN conjunct2]
          have a: "pages (fst (fst (processEach env (f # fs) (w, k)))) = pages w @ (new1 @ new2)"
            using buf doc js run None new1(1) new2(1) by (simp add: Let_def)
          have b: "length (new1 @ new2) = growth env (f # fs)"
          proof -
            from ing None have i: "ingestible env f" by simp
            then have "rendered env f = pageCount env f"
              by (simp add: ingestible_def)
            with rend have "length new1 = pageCount env f" by simp
            with i new2(2) show ?thesis by (simp add: growth_def)
          qed
          have c: "(snd (processEach env (f # fs) (w, k)) = None)
              = list_all (ingestible env) (f # fs)"
            using buf doc js run None ing new2(3) by (simp add: Let_def)
          show ?thesis
            by (rule exI [of _ "new1 @ new2"]) (simp only: a b c simp_thms)
        next
          case (Some e)
          have a: "pages (fst (fst (processEach env (f # fs) (w, k)))) = pages w @ new1"
            using buf doc js run Some new1(1) by (simp add: Let_def)
          have b: "length new1 = growth env (f # fs)"
            using ing Some rend by (simp add: growth_def)
          have c: "(snd (processEach env (f # fs) (w, k)) = None)
              = list_all (ingestible env) (f # fs)"
            using buf doc js run Some ing by (simp add: Let_def)
          show ?thesis
            by (rule exI [of _ new1]) (simp only: a b c simp_thms)
        qed
      qed
    qed
  qed
qed

lemma countPages_isl: "isl (countPages env files n) = (\<not> list_all (decodable env) files)"
proof (induction files arbitrary: n)
  case Nil
  then show ?case by simp
next
  case (Cons f fs)
  then show ?case
    by (cases "arrayBuffer f"; cases "load env (projr (arrayBuffer f))")
      (simp_all add: decodable_def)
qed

lemma goodFile_facts:
  "decodable env0 goodFile" "ingestible env0 goodFile" "pageCount env0 goodFile = 2"
  by (simp_all add: decodable_def ingestible_def rendered_def pageCount_def thumbnailOk_def
      env0_def goodFile_def docA_def)

text \<open>
  Claim C2, as stated, fails. The first pass decodes every file of the batch before
  anything is appended, so a file that does not decode leaves the collection as it was,
  also when a two-page document before it in the batch decoded.
\<close>

theorem processFiles_rollback_counterexample:
  "pageCount env0 goodFile = 2 \<and> \<not> decodable env0 badFile
   \<and> pages (processFiles env0 [goodFile, badFile] initial) = []"
  by (simp add: pageCount_def decodable_def processFiles_def processFiles_begin_def
      processFiles_try_def finallyBlock_def showToast_def hideLoading_def showLoading_def
      env0_def goodFile_def badFile_def docA_def initial_def)

text \<open>
  Claim C2, amended. A call made while the guard is set changes nothing. Otherwise the
  collection after the call is the collection before it with pages appended (nothing is
  rolled back), and their number is: zero when some file of the batch cannot be read or
  decoded (the counting pass throws); else the page counts of the files before the first
  one the second pass fails on, plus the pages of that file rendered before the failure,
  and nothing of the files after it. That is the sum of all page counts when every file
  is ingestible. The batch ends with the success toast exactly when nothing failed, with
  the error toast otherwise, and with the guard clear.
\<close>

theorem processFiles_growth:
  "(isProcessing w \<longrightarrow> processFiles env files w = w)
   \<and> (\<not> isProcessing w \<longrightarrow>
        prefix (pages w) (pages (processFiles env files w))
      \<and> length (pages (processFiles env files w)) =
          length (pages w) + (if list_all (decodable env) files then growth env files else 0)
      \<and> (list_all (ingestible env) files \<longrightarrow>
            growth env files = sum_list (map (pageCount env) files))
      \<and> snd (last (toasts (processFiles env files w))) =
          (if list_all (decodable env) files \<and> list_all (ingestible env) files
           then ''success'' else ''error'')
      \<and> \<not> isProcessing (processFiles env files w))"
proof -
  let ?w1 = "w\<lparr>isProcessing := True, loadingVisible := True\<rparr>"
  obtain w' k r where run: "processEach env files (?w1, 0) = ((w', k), r)"
    by (metis surj_pair)
  from processEach_pages [of env files ?w1 0] obtain new
    where n: "pages w' = pages w @ new \<and> length new = growth env files
      \<and> (r = None) = list_all (ingestible env) files"
    unfolding run by auto
  note new = n [THEN conjunct1] n [THEN conjunct2, THEN conjunct1]
    n [THEN conjunct2, THEN conjunct2]
  have g: "growth env files = sum_list (map (pageCount env) files)"
    if "list_all (ingestible env) files"
  proof -
    from that have "dropWhile (ingestible env) files = []"
      by (simp add: list_all_iff)
    moreover from that have "takeWhile (ingestible env) files = files"
      by (rule takeWhile_all)
    ultimately show ?thesis
      unfolding growth_def by (simp only: list.case add_0_right)
  qed
  show ?thesis
  proof (cases "countPages env files 0")
    case (Inl e)
    with countPages_isl [of env files 0] have "\<not> list_all (decodable env) files"
      by simp
    with Inl g show ?thesis
      by (simp add: processFiles_def processFiles_begin_def processFiles_try_def
          finallyBlock_def showToast_def hideLoading_def showLoading_def)
  next
    case (Inr total)
    with countPages_isl [of env files 0] have d: "list_all (decodable env) files"
      by simp
    show ?thesis
      using Inr d run new g
      by (cases r)
        (simp_all add: processFiles_def processFiles_begin_def processFiles_try_def
          finallyBlock_def showToast_def hideLoading_def showLoading_def renderPages_def)
  qed
qed

lemma lockedFile_facts:
  "decodable env0 lockedFile" "\<not> ingestible env0 lockedFile" "rendered env0 lockedFile = 0"
  by (simp_all add: decodable_def ingestible_def rendered_def pageCount_def thumbnailOk_def
      env0_def lockedFile_def)

theorem processFiles_growth_witness:
  "\<not> isProcessing initial
   \<and> length (pages (processFiles env0 [goodFile] initial)) = 2
   \<and> length (pages (processFiles env0 [goodFile, lockedFile] initial)) = 2
   \<and> snd (last (toasts (processFiles env0 [goodFile, lockedFile] initial))) = ''error''
   \<and> isProcessing (initial\<lparr>isProcessing := True\<rparr>)
   \<and> processFiles env0 [goodFile] (initial\<lparr>isProcessing := True\<rparr>)
       = initial\<lparr>isProcessing := True\<rparr>"
proof -
  have h: "\<not> isProcessing initial" "pages initial = []"
    "isProcessing (initial\<lparr>isProcessing := True\<rparr>)"
    by (simp_all add: initial_def)
  from processFiles_growth [of initial env0 "[goodFile]"]
    processFiles_growth [of initial env0 "[goodFile, lockedFile]"]
    processFiles_growth [of "initial\<lparr>isProcessing := True\<rparr>" env0 "[goodFile]"] h
  show ?thesis
    by (simp add: goodFile_facts lockedFile_facts growth_def)
qed

subsection \<open>Selection stays inside the collection\<close>

lemma processPages_frame:
  "selectedIds (fst (fst (processPages env f buf is (w, k)))) = selectedIds w
   \<and> grid (fst (fst (processPages env f buf is (w, k)))) = grid w"
proof (induction "is" arbitrary: w k)
  case Nil
  then show ?case by simp
next
  case (Cons i "is")
  then show ?case
    by (cases "generateThumbnail env (bytes buf) (i + 1)") (simp_all add: Let_def)
qed

lemma processEach_frame:
  "selectedIds (fst (fst (processEach env files (w, k)))) = selectedIds w
   \<and> grid (fst (fst (processEach env files (w, k)))) = grid w"
proof (induction files arbitrary: w k)
  case Nil
  then show ?case by simp
next
  case (Cons f fs)
  show ?case
  proof (cases "arrayBuffer f")
    case (Inl e)
    then show ?thesis by simp
  next
    case buf: (Inr buf)
    let ?w1 = "w\<lparr>nextAddr := Suc (nextAddr w)\<rparr>"
    show ?thesis
    proof (cases "load env buf")
      case (Inl e)
      with buf show ?thesis by simp
    next
      case doc: (Inr doc)
      show ?thesis
      proof (cases "getDocument env buf")
        case (Inl e)
        with buf doc show ?thesis by simp
      next
        case js: (Inr u)
        obtain w' k' r
          where run: "processPages env f (U8 (nextAddr w) buf) [0..<length doc] (?w1, k)
            = ((w', k'), r)"
          by (metis surj_pair)
        from processPages_frame [of env f "U8 (nextAddr w) buf" "[0..<length doc]" ?w1 k]
        have fr: "selectedIds w' = selectedIds w" "grid w' = grid w"
          unfolding run by simp_all
        show ?thesis
          using buf doc js run fr Cons.IH [of w' k']
          by (cases r) (simp_all add: Let_def)
      qed
    qed
  qed
qed

lemma processFiles_frame:
  "selectedIds (processFiles env files w) = selectedIds w
   \<and> (\<exists>new. pages (processFiles env files w) = pages w @ new)
   \<and> (grid (processFiles env files w) = grid w
       \<or> grid (processFiles env files w) = map pageId (pages (processFiles env files w)))"
proof (cases "isProcessing w")
  case True
  then show ?thesis
    by (simp add: processFiles_def processFiles_begin_def)
next
  case False
  let ?w1 = "w\<lparr>isProcessing := True, loadingVisible := True\<rparr>"
  obtain w' k r where run: "processEach env files (?w1, 0) = ((w', k), r)"
    by (metis surj_pair)
  from processEach_pages [of env files ?w1 0] obtain new where "pages w' = pages w @ new"
    unfolding run by auto
  moreover from processEach_frame [of env files ?w1 0]
  have "selectedIds w' = selectedIds w" "grid w' = grid w"
    unfolding run by simp_all
  ultimately show ?thesis
    using False run
    by (cases "countPages env files 0"; cases r)
      (simp_all add: processFiles_def processFiles_begin_def processFiles_try_def
        finallyBlock_def showToast_def hideLoading_def showLoading_def renderPages_def)
qed

lemma splitLoop_frame:
  "pages (fst (splitLoop env ps i w)) = pages w
   \<and> selectedIds (fst (splitLoop env ps i w)) = selectedIds w
   \<and> grid (fst (splitLoop env ps i w)) = grid w"
proof (induction ps arbitrary: i w)
  case Nil
  then show ?case by simp
next
  case (Cons p ps)
  then show ?case
    by (cases "splitOne env p") (simp_all add: downloadBlob_def)
qed

lemma splitSelected_frame:
  "pages (splitSelected env w) = pages w
   \<and> selectedIds (splitSelected env w) = selectedIds w
   \<and> grid (splitSelected env w) = grid w"
proof -
  let ?w1 = "w\<lparr>isProcessing := True, loadingVisible := True\<rparr>"
  let ?sel = "filter (\<lambda>p. setHas (selectedIds w) (pageId p)) (pages w)"
  obtain w' r where run: "splitLoop env ?sel 0 ?w1 = (w', r)"
    by (metis surj_pair)
  from splitLoop_frame [of env ?sel 0 ?w1]
  have "pages w' = pages w" "selectedIds w' = selectedIds w" "grid w' = grid w"
    unfolding run by simp_all
  then show ?thesis
    using run
    by (cases r)
      (simp_all add: splitSelected_def splitSelected_begin_def splitSelected_try_def
        finallyBlock_def showToast_def hideLoading_def showLoading_def Let_def)
qed

lemma mergeAndExport_frame:
  "pages (mergeAndExport env w) = pages w
   \<and> selectedIds (mergeAndExport env w) = selectedIds w
   \<and> grid (mergeAndExport env w) = grid w"
  by (cases "mergeAssemble env (pagesToExport w)")
    (simp_all add: mergeAndExport_def mergeAndExport_begin_def mergeAndExport_try_def
      mergeAndExport_catch_def finallyBlock_def showToast_def hideLoading_def
      showLoading_def downloadBlob_def Let_def)

lemma validateFilenameInput_frame:
  "pages (fst (validateFilenameInput w)) = pages w
   \<and> selectedIds (fst (validateFilenameInput w)) = selectedIds w
   \<and> grid (fst (validateFilenameInput w)) = grid w"
  by (simp add: validateFilenameInput_def Let_def)

lemma confirmAndExport_frame:
  "pages (confirmAndExport env w) = pages w
   \<and> selectedIds (confirmAndExport env w) = selectedIds w
   \<and> grid (confirmAndExport env w) = grid w"
proof -
  obtain w1 b where v: "validateFilenameInput w = (w1, b)"
    by (metis surj_pair)
  from validateFilenameInput_frame [of w]
  have "pages w1 = pages w" "selectedIds w1 = selectedIds w" "grid w1 = grid w"
    unfolding v by simp_all
  with mergeAndExport_frame [of env "hideExportPreview w1"] show ?thesis
    by (cases b) (simp_all add: confirmAndExport_def v hideExportPreview_def)
qed

lemma dialog_frame:
  "pages (showExportPreview env w) = pages w
   \<and> selectedIds (showExportPreview env w) = selectedIds w
   \<and> grid (showExportPreview env w) = grid w"
  "pages (selectFilenameTemplate env t w) = pages w
   \<and> selectedIds (selectFilenameTemplate env t w) = selectedIds w
   \<and> grid (selectFilenameTemplate env t w) = grid w"
  "pages (inputFilename v w) = pages w
   \<and> selectedIds (inputFilename v w) = selectedIds w
   \<and> grid (inputFilename v w) = grid w"
  by (simp_all add: showExportPreview_def selectFilenameTemplate_def
      inputFilename_def updateFilenameFromTemplate_def showToast_def
      validateFilenameInput_frame Let_def)

lemma set_foldl_setAdd: "set (foldl setAdd s xs) = set s \<union> set xs"
  by (induction xs arbitrary: s) (auto simp: setAdd_def)

lemma rotatePage_map: "map pageId (pages (rotatePage i w)) = map pageId (pages w)
   \<and> selectedIds (rotatePage i w) = selectedIds w \<and> grid (rotatePage i w) = grid w"
proof (cases "findIndex (\<lambda>p. pageId p = i) (pages w)")
  case None
  then show ?thesis by (simp add: rotatePage_def)
next
  case (Some k)
  then have "k < length (pages w)" by (simp add: findIndex_Some)
  then have "map pageId ((pages w)[k := (pages w ! k)\<lparr>rotation := r\<rparr>]) = map pageId (pages w)"
    for r
    by (simp add: map_update list_update_same_conv)
  with Some show ?thesis
    by (simp add: rotatePage_def showToast_def Let_def)
qed

lemma rotatePage_ids: "pageId ` set (pages (rotatePage i w)) = pageId ` set (pages w)
   \<and> selectedIds (rotatePage i w) = selectedIds w \<and> grid (rotatePage i w) = grid w"
proof -
  from rotatePage_map [of i w]
  have "map pageId (pages (rotatePage i w)) = map pageId (pages w)"
    by (rule conjunct1)
  then have "set (map pageId (pages (rotatePage i w))) = set (map pageId (pages w))"
    by (rule arg_cong)
  then have "pageId ` set (pages (rotatePage i w)) = pageId ` set (pages w)"
    by (simp only: set_map)
  with rotatePage_map [of i w] show ?thesis
    by blast
qed

lemma handlePageDrop_ids:
  "set (map pageId (pages (handlePageDrop t w))) = set (map pageId (pages w))
   \<and> selectedIds (handlePageDrop t w) = selectedIds w
   \<and> (grid (handlePageDrop t w) = grid w
        \<or> grid (handlePageDrop t w) = map pageId (pages (handlePageDrop t w)))"
proof -
  have "set (pages (handlePageDrop t w)) = set (pages w)"
    using handlePageDrop_mset [of t w] by (rule mset_eq_setD)
  then have "set (map pageId (pages (handlePageDrop t w))) = set (map pageId (pages w))"
    by simp
  moreover have "selectedIds (handlePageDrop t w) = selectedIds w
     \<and> (grid (handlePageDrop t w) = grid w
        \<or> grid (handlePageDrop t w) = map pageId (pages (handlePageDrop t w)))"
    by (simp add: handlePageDrop_def renderPages_def split: option.splits list.splits prod.splits)
  ultimately show ?thesis by blast
qed

lemma dispatch_preserves:
  assumes "selectionValid w" "cardsValid w"
  shows "selectionValid (dispatch env ev w) \<and> cardsValid (dispatch env ev w)"
proof (cases ev)
  case (FileDrop files)
  let ?fs = "filter (\<lambda>f. mimeType f = ''application/pdf'') files"
  from processFiles_frame [of env ?fs w] assms show ?thesis
    unfolding FileDrop selectionValid_def cardsValid_def
    by (auto simp: handleFileDrop_def showToast_def Let_def)
next
  case (FileSelect files)
  from processFiles_frame [of env files w] assms show ?thesis
    unfolding FileSelect selectionValid_def cardsValid_def
    by (auto simp: handleFileSelect_def)
next
  case (CardClick i)
  with assms show ?thesis
    by (auto simp: selectionValid_def cardsValid_def togglePageSelection_def setHas_def
        setAdd_def setDelete_def)
next
  case (RotateClick i)
  with assms rotatePage_ids [of i w] show ?thesis
    by (auto simp: selectionValid_def cardsValid_def)
next
  case (CardDragStart i)
  with assms show ?thesis
    by (auto simp: selectionValid_def cardsValid_def handlePageDragStart_def)
next
  case CardDragEnd
  with assms show ?thesis
    by (auto simp: selectionValid_def cardsValid_def handlePageDragEnd_def)
next
  case (CardDrop i)
  with assms handlePageDrop_ids [of i w] show ?thesis
    by (auto simp: selectionValid_def cardsValid_def)
next
  case SelectAllClick
  with assms show ?thesis
    by (auto simp: selectionValid_def cardsValid_def selectAll_def renderPages_def
        set_foldl_setAdd)
next
  case ClearAllClick
  then show ?thesis
    by (simp add: selectionValid_def cardsValid_def clearAll_def renderPages_def showToast_def)
next
  case DeleteClick
  with assms show ?thesis
    by (simp add: selectionValid_def cardsValid_def deleteSelected_def renderPages_def
        showToast_def Let_def)
next
  case SplitClick
  with assms splitSelected_frame [of env w] show ?thesis
    by (simp add: selectionValid_def cardsValid_def)
next
  case MergeClick
  with assms dialog_frame(1) [of env w] show ?thesis
    by (simp add: selectionValid_def cardsValid_def)
next
  case ModalClose
  with assms show ?thesis
    by (simp add: selectionValid_def cardsValid_def hideExportPreview_def)
next
  case (FilenameInput v)
  with assms dialog_frame(3) [of v w] show ?thesis
    by (simp add: selectionValid_def cardsValid_def)
next
  case (TemplateClick t)
  with assms dialog_frame(2) [of env t w] show ?thesis
    by (simp add: selectionValid_def cardsValid_def)
next
  case ConfirmExportClick
  with assms confirmAndExport_frame [of env w] show ?thesis
    by (simp add: selectionValid_def cardsValid_def)
qed

lemma run_preserves:
  assumes "selectionValid w" "cardsValid w"
  shows "selectionValid (foldl (\<lambda>s ev. dispatch env ev s) w evs)
    \<and> cardsValid (foldl (\<lambda>s ev. dispatch env ev s) w evs)"
proof (induction evs rule: rev_induct)
  case Nil
  from assms show ?case by simp
next
  case (snoc ev evs)
  then show ?case
    by (simp add: dispatch_preserves)
qed

lemma initial_valid: "selectionValid initial" "cardsValid initial"
  by (simp_all add: selectionValid_def cardsValid_def initial_def)

lemma toggle_absent: "\<not> selectionValid (togglePageSelection ''ghost'' initial)"
  by (simp add: selectionValid_def togglePageSelection_def setHas_def setAdd_def initial_def)

text \<open>
  Claim C7. Let every selected id be the id of a page of the collection, and every card
  of the grid the card of such a page. Then both hold again after any event of the
  application (an upload, which appends pages; a click on a card, which toggles the
  selection of its page; select all; delete; clear; a drop, which reorders; and the
  others), and so after any sequence of events. A toggle of the id of a page of the
  collection keeps the selection inside the collection (lemma \<open>toggle_absent\<close>: a toggle
  of an id that no page has does not, and no card passes such an id). Deleting empties
  the selection and removes exactly the pages whose id was selected, in the same step:
  no id that was selected is the id of a page afterwards.
\<close>

theorem selection_invariant:
  assumes "selectionValid w" "cardsValid w"
  shows "selectionValid (dispatch env ev w) \<and> cardsValid (dispatch env ev w)
    \<and> selectionValid (foldl (\<lambda>s ev. dispatch env ev s) w evs)
    \<and> (i \<in> set (map pageId (pages w)) \<longrightarrow> selectionValid (togglePageSelection i w))
    \<and> selectedIds (deleteSelected w) = []
    \<and> pages (deleteSelected w) = filter (\<lambda>p. pageId p \<notin> set (selectedIds w)) (pages w)
    \<and> (\<forall>j\<in>set (selectedIds w). j \<notin> set (map pageId (pages (deleteSelected w))))"
proof -
  have t: "selectionValid (togglePageSelection i w)" if "i \<in> set (map pageId (pages w))"
    using that assms(1)
    by (auto simp: selectionValid_def togglePageSelection_def setHas_def setAdd_def
        setDelete_def)
  have d: "selectedIds (deleteSelected w) = []"
    "pages (deleteSelected w) = filter (\<lambda>p. pageId p \<notin> set (selectedIds w)) (pages w)"
    by (simp_all add: deleteSelected_def renderPages_def showToast_def Let_def setHas_def)
  have "\<forall>j\<in>set (selectedIds w). j \<notin> set (map pageId (pages (deleteSelected w)))"
    unfolding d by auto
  with t d dispatch_preserves [OF assms, of env ev] run_preserves [OF assms, of env evs]
  show ?thesis
    by blast
qed

theorem selection_invariant_witness:
  "selectionValid twoSelected \<and> cardsValid twoSelected
   \<and> selectionValid (dispatch env0 DeleteClick twoSelected)
   \<and> ''p1'' \<in> set (map pageId (pages twoSelected))
   \<and> selectionValid (togglePageSelection ''p1'' twoSelected)
   \<and> selectedIds (deleteSelected twoSelected) = []
   \<and> pages (deleteSelected twoSelected) = []
   \<and> ''p2'' \<in> set (selectedIds twoSelected)
   \<and> ''p2'' \<notin> set (map pageId (pages (deleteSelected twoSelected)))"
proof -
  have h: "selectionValid twoSelected" "cardsValid twoSelected"
    "''p1'' \<in> set (map pageId (pages twoSelected))" "''p2'' \<in> set (selectedIds twoSelected)"
    by (simp_all add: selectionValid_def cardsValid_def twoSelected_def initial_def
        pageP1_def pageP2_def mkPage_def)
  have f: "filter (\<lambda>p. pageId p \<notin> set (selectedIds twoSelected)) (pages twoSelected) = []"
    by (simp add: twoSelected_def initial_def pageP1_def pageP2_def mkPage_def)
  from selection_invariant [OF h(1,2), of env0 DeleteClick "[]" "''p1''"] h show ?thesis
    by (simp add: f)
qed

subsection \<open>The processing guard\<close>

text \<open>
  Claim C3 does not hold of the code. \<^verbatim>\<open>processFiles\<close> tests the guard and returns
  while it is set, but \<^verbatim>\<open>splitSelected\<close> and \<^verbatim>\<open>mergeAndExport\<close> never read it. In the
  state \<open>busy\<close>, which \<^verbatim>\<open>processFiles\<close> has entered and not yet left, a second
  \<^verbatim>\<open>processFiles\<close> is refused, while a split and a merge both start; and when either
  of them ends, its \<^verbatim>\<open>finally\<close> block clears the guard under the ingestion that is
  still in flight, so that a further \<^verbatim>\<open>processFiles\<close> would start as well.
\<close>

theorem guard_not_checked_by_export:
  "processFiles_begin twoSelected = Some busy
   \<and> processFiles_begin busy = None
   \<and> splitSelected_begin busy = Inr busy
   \<and> mergeAndExport_begin busy = Inr busy
   \<and> isProcessing busy
   \<and> processFiles_begin (splitSelected env0 busy) \<noteq> None
   \<and> processFiles_begin (mergeAndExport env0 busy) \<noteq> None"
proof -
  have b: "isProcessing busy" "selectedIds busy \<noteq> []" "pages busy \<noteq> []"
    by (simp_all add: busy_def twoSelected_def initial_def)
  have 1: "processFiles_begin twoSelected = Some busy"
    by (simp add: processFiles_begin_def busy_def showLoading_def twoSelected_def initial_def)
  have 2: "processFiles_begin busy = None"
    using b by (simp add: processFiles_begin_def)
  have 3: "splitSelected_begin busy = Inr busy"
    using b by (simp add: splitSelected_begin_def showLoading_def busy_def)
  have 4: "mergeAndExport_begin busy = Inr busy"
    using b by (simp add: mergeAndExport_begin_def showLoading_def busy_def)
  have 5: "\<not> isProcessing (splitSelected env0 busy)"
    by (simp add: splitSelected_def 3 finallyBlock_def)
  have 6: "\<not> isProcessing (mergeAndExport env0 busy)"
    by (simp add: mergeAndExport_def 4 finallyBlock_def)
  from 1 2 3 4 5 6 b(1) show ?thesis
    by (simp add: processFiles_begin_def)
qed

subsection \<open>The size estimate\<close>

lemma showNat_small: "showNat 0 = ''0''" "showNat (Suc 0) = ''1''" "showNat 2 = ''2''"
  by (simp_all add: showNat.simps)

lemma pages_deletedOne: "pages deletedOne = [remaining]"
  by (simp add: deletedOne_def handleFileSelect_def processFiles_def processFiles_begin_def
      processFiles_try_def finallyBlock_def showToast_def hideLoading_def showLoading_def
      renderPages_def bigFile_def envBig_def env0_def docA_def initial_def Let_def
      togglePageSelection_def setHas_def setAdd_def setDelete_def deleteSelected_def
      showNat_small remaining_def upt_rec [of 0] upt_rec [of 1] upt_rec [of 2])

lemma estimatedBytes_remaining: "estimatedBytes [remaining] [remaining] = Some 850"
  by (simp add: estimatedBytes_def estimateStep_def remaining_def Let_def)

lemma formatSize_850: "formatSize 850 = ''850 B''"
  by (simp add: formatSize_def mathRound_def showNat.simps)

lemma spec_estimatedBytes_remaining: "spec_estimatedBytes envBig [remaining] = 425"
  by (simp add: spec_estimatedBytes_def totalPagesIn_def envBig_def env0_def docA_def
      remaining_def)

lemma pages_selectedOne:
  "pagesToExport selectedOne = [remaining]"
  "pages selectedOne = [remaining, deletedPage]"
  by (simp_all add: selectedOne_def handleFileSelect_def processFiles_def
      processFiles_begin_def pagesToExport_def
      processFiles_try_def finallyBlock_def showToast_def hideLoading_def showLoading_def
      renderPages_def bigFile_def envBig_def env0_def docA_def initial_def Let_def
      togglePageSelection_def setHas_def setAdd_def setDelete_def
      showNat_small remaining_def deletedPage_def upt_rec [of 0] upt_rec [of 1]
      upt_rec [of 2])

lemma pagesToExport_deletedOne: "pagesToExport deletedOne = [remaining]"
proof -
  have "selectedIds deletedOne = []"
    by (simp add: deletedOne_def handleFileSelect_def processFiles_def processFiles_begin_def
      processFiles_try_def finallyBlock_def showToast_def hideLoading_def showLoading_def
      renderPages_def bigFile_def envBig_def env0_def docA_def initial_def Let_def
      togglePageSelection_def setHas_def setAdd_def setDelete_def deleteSelected_def
      showNat_small remaining_def upt_rec [of 0] upt_rec [of 1] upt_rec [of 2])
  then show ?thesis
    by (simp add: pagesToExport_def pages_deletedOne)
qed

lemma estimatedBytes_before:
  "estimatedBytes [remaining] [remaining, deletedPage] = Some 425"
  by (simp add: estimatedBytes_def estimateStep_def remaining_def deletedPage_def Let_def)

text \<open>
  The estimate in general: the sum, over the distinct buffers of the planned pages, of
  the byte length times the planned pages of the buffer over the pages of the collection
  that hold the buffer, times 0.85. It is the specified estimate when, for every planned
  page, the collection holds as many pages of its buffer as the buffer has pages.
\<close>

lemma estimateStep_seen:
  "addr (pdfBytes p) \<in> set P \<Longrightarrow> estimateStep ps st (P, E) p = (P, E)"
  by (simp add: estimateStep_def)

lemma estimateStep_new:
  assumes "addr (pdfBytes p) \<notin> set P"
    and "filter (\<lambda>q. addr (pdfBytes q) = addr (pdfBytes p)) st \<noteq> []"
  shows "estimateStep ps st (P, Some E) p
    = (P @ [addr (pdfBytes p)], Some (E + share ps st (pdfBytes p)))"
  using assms by (simp add: estimateStep_def share_def Let_def)

lemma estimate_fold:
  assumes "sameArray st" "set xs \<subseteq> set st"
  shows "snd (foldl (estimateStep ps st) (P, Some E) xs)
    = Some (E + sum (share ps st) {b \<in> pdfBytes ` set xs. addr b \<notin> set P})"
  using assms(2)
proof (induction xs arbitrary: P E)
  case Nil
  then show ?case by simp
next
  case (Cons p xs)
  let ?b = "pdfBytes p"
  from Cons.prems have p: "p \<in> set st" and xs: "set xs \<subseteq> set st"
    by simp_all
  show ?case
  proof (cases "addr ?b \<in> set P")
    case True
    then have "{b \<in> pdfBytes ` set (p # xs). addr b \<notin> set P}
        = {b \<in> pdfBytes ` set xs. addr b \<notin> set P}"
      by auto
    with True Cons.IH [OF xs, of P E] show ?thesis
      by (simp add: estimateStep_seen)
  next
    case False
    from p have ne: "filter (\<lambda>q. addr (pdfBytes q) = addr ?b) st \<noteq> []"
      by (auto simp: filter_empty_conv)
    have same: "b = ?b" if "b \<in> pdfBytes ` set xs" "addr b = addr ?b" for b
    proof -
      from that(1) obtain q where q: "q \<in> set xs" "b = pdfBytes q"
        by auto
      with xs have "q \<in> set st" by auto
      with p q that(2) assms(1) show ?thesis
        unfolding sameArray_def by auto
    qed
    have split: "{b \<in> pdfBytes ` set (p # xs). addr b \<notin> set P}
        = insert ?b {b \<in> pdfBytes ` set xs. addr b \<notin> set (P @ [addr ?b])}"
      using False same by auto
    have notin: "?b \<notin> {b \<in> pdfBytes ` set xs. addr b \<notin> set (P @ [addr ?b])}"
      by simp
    have fin: "finite {b \<in> pdfBytes ` set xs. addr b \<notin> set (P @ [addr ?b])}"
      by simp
    have "snd (foldl (estimateStep ps st) (P, Some E) (p # xs))
        = snd (foldl (estimateStep ps st)
                 (P @ [addr ?b], Some (E + share ps st ?b)) xs)"
      by (simp add: estimateStep_new [OF False ne])
    also have "\<dots> = Some (E + share ps st ?b
        + sum (share ps st) {b \<in> pdfBytes ` set xs. addr b \<notin> set (P @ [addr ?b])})"
      by (rule Cons.IH [OF xs])
    also have "\<dots> = Some (E + sum (share ps st)
        (insert ?b {b \<in> pdfBytes ` set xs. addr b \<notin> set (P @ [addr ?b])}))"
      using sum.insert [OF fin notin, of "share ps st"] by (simp add: add.assoc)
    finally show ?thesis
      unfolding split .
  qed
qed

lemma estimatedBytes_code:
  assumes "sameArray st" "set ps \<subseteq> set st"
  shows "estimatedBytes ps st = Some (sum (share ps st) (pdfBytes ` set ps) * (85 / 100))"
  using estimate_fold [OF assms, of ps "[]" 0]
  by (simp add: estimatedBytes_def)

lemma estimatedBytes_agrees:
  assumes "sameArray st" "set ps \<subseteq> set st"
    and "\<forall>p\<in>set ps. length (filter (\<lambda>q. pdfBytes q = pdfBytes p) st)
           = totalPagesIn env (pdfBytes p)"
  shows "estimatedBytes ps st = Some (spec_estimatedBytes env ps)"
proof -
  have eqv: "(addr (pdfBytes q) = addr (pdfBytes p)) = (pdfBytes q = pdfBytes p)"
    if "p \<in> set st" "q \<in> set st" for p q
    using that assms(1) unfolding sameArray_def by auto
  have "share ps st b = real (length (bytes b))
      * (real (length (filter (\<lambda>p. pdfBytes p = b) ps)) / real (totalPagesIn env b))"
    if "b \<in> pdfBytes ` set ps" for b
  proof -
    from that obtain p where p: "p \<in> set ps" "b = pdfBytes p" by auto
    with assms(2) have pst: "p \<in> set st" by auto
    have 1: "filter (\<lambda>q. addr (pdfBytes q) = addr b) ps = filter (\<lambda>q. pdfBytes q = b) ps"
      unfolding p(2) using eqv [OF pst] assms(2) by (intro filter_cong) auto
    have 2: "filter (\<lambda>q. addr (pdfBytes q) = addr b) st = filter (\<lambda>q. pdfBytes q = b) st"
      unfolding p(2) using eqv [OF pst] by (intro filter_cong) auto
    from assms(3) p have 3: "length (filter (\<lambda>q. pdfBytes q = b) st) = totalPagesIn env b"
      by simp
    show ?thesis
      by (simp add: share_def 1 2 3)
  qed
  then have "sum (share ps st) (pdfBytes ` set ps)
      = (\<Sum>b\<in>pdfBytes ` set ps. real (length (bytes b))
      * (real (length (filter (\<lambda>p. pdfBytes p = b) ps)) / real (totalPagesIn env b)))"
    by (intro sum.cong) auto
  also have "\<dots> = (\<Sum>b\<leftarrow>remdups (map pdfBytes ps). real (length (bytes b))
      * (real (length (filter (\<lambda>p. pdfBytes p = b) ps)) / real (totalPagesIn env b)))"
    by (simp add: sum_list_distinct_conv_sum_set)
  finally show ?thesis
    using estimatedBytes_code [OF assms(1,2)]
    by (simp add: spec_estimatedBytes_def)
qed

text \<open>
  Claim C9 does not hold of the code. \<^verbatim>\<open>estimateFileSize\<close> divides by
  \<open>totalPagesInSource\<close>, which it computes as the number of pages of the collection
  that share the buffer, not as the number of pages in the buffer. The two agree until a
  page of the source is deleted. For the first page of a two-page source of 1000 bytes,
  the specified estimate is 425 bytes, and so is the computed one while both pages are in
  the collection; once the other page has been deleted, the estimate for the same export
  is 850 bytes.
\<close>

theorem estimateFileSize_after_delete:
  "pagesToExport selectedOne = [remaining] \<and> pagesToExport deletedOne = [remaining]
   \<and> length (bytes (pdfBytes remaining)) = 1000
   \<and> totalPagesIn envBig (pdfBytes remaining) = 2
   \<and> spec_estimatedBytes envBig [remaining] = 425
   \<and> estimatedBytes (pagesToExport selectedOne) (pages selectedOne) = Some 425
   \<and> estimatedBytes (pagesToExport deletedOne) (pages deletedOne) = Some 850
   \<and> estimateFileSize (pagesToExport deletedOne) deletedOne = Some ''850 B''"
proof -
  have "totalPagesIn envBig (pdfBytes remaining) = 2"
    "length (bytes (pdfBytes remaining)) = 1000"
    by (simp_all add: totalPagesIn_def envBig_def env0_def docA_def remaining_def)
  then show ?thesis
    by (simp add: pages_selectedOne pagesToExport_deletedOne pages_deletedOne
        estimatedBytes_remaining estimatedBytes_before spec_estimatedBytes_remaining
        formatSize_850 estimateFileSize_def)
qed

subsection \<open>The earlier variant\<close>

text \<open>
  On pages without rotation the loops of the earlier variant are the loops of the later
  one, so the merge of the earlier variant emits the same bytes (under another name),
  and a round of its split saves the same bytes.
\<close>

lemma mergeLoop_appjs_eq:
  "\<forall>p\<in>set ps. rotation p = 0 \<Longrightarrow> mergeLoop_appjs env ps acc = mergeLoop env ps acc"
proof (induction ps arbitrary: acc)
  case Nil
  then show ?case by simp
next
  case (Cons p ps)
  then show ?case
    by (simp split: sum.splits)
qed

lemma splitOne_appjs_eq: "rotation p = 0 \<Longrightarrow> splitOne_appjs env p = splitOne env p"
  by (simp add: splitOne_appjs_def splitOne_def split: sum.splits)

lemma pagesToExport_subset: "set (pagesToExport w) \<subseteq> set (pages w)"
  by (auto simp: pagesToExport_def)

lemma mergeAndExport_appjs_emits:
  assumes "\<forall>p\<in>set (pages w). rotation p = 0"
  shows "map fst (downloads (mergeAndExport_appjs env w)) = map fst (downloads (mergeAndExport env w))"
proof -
  let ?w1 = "w\<lparr>isProcessing := True, loadingVisible := True\<rparr>"
  from assms pagesToExport_subset [of w] have "\<forall>p\<in>set (pagesToExport w). rotation p = 0"
    by blast
  then have eq: "mergeLoop_appjs env (pagesToExport w) [] = mergeLoop env (pagesToExport w) []"
    by (rule mergeLoop_appjs_eq)
  show ?thesis
    by (cases "mergeAssemble env (pagesToExport w)")
      (simp_all add: mergeAndExport_appjs_def mergeAndExport_def mergeAndExport_begin_def
        mergeAndExport_appjs_try_def mergeAndExport_try_def eq mergeAssemble_def [symmetric]
        mergeAndExport_catch_def finallyBlock_def showToast_def hideLoading_def
        showLoading_def downloadBlob_def Let_def)
qed

end
